theory Spec2Isabelle
  imports Main
begin

section \<open>Data model (types.ts)\<close>

datatype Provider = gemini | openai | perplexity | copilot

text \<open>Optional strings of the configuration are \<open>string option\<close>; JavaScript's truthiness
  test (\<open>if (x)\<close>, \<open>!x\<close>, \<open>x && y\<close>) fails for \<open>undefined\<close> and for the empty string.\<close>

definition truthy :: "string option \<Rightarrow> bool" where
  "truthy v = (case v of None \<Rightarrow> False | Some s \<Rightarrow> s \<noteq> [])"

record ApiKeys =
  gemini_key :: "string option"
  openai_key :: "string option"
  perplexity_key :: "string option"
  copilotKey :: "string option"
  copilotEndpoint :: "string option"

record AppConfig =
  providers :: "Provider list"
  apiKeys :: ApiKeys
  models :: "Provider \<Rightarrow> string option"
  clientName :: string
  competitors :: "string list"
  prompts :: "string list"
  additionalQuestions :: "string list"

text \<open>Values that \<open>JSON.parse\<close> and a property access on its result can produce. TypeScript's
  annotation \<open>BrandAnalysis[]\<close> is erased at run time, so \<open>brandAnalyses\<close> holds whatever value
  the provider's JSON contained.\<close>

datatype jsval =
    Undefined
  | Null
  | Bool bool
  | Num int
  | Str string
  | Arr "jsval list"
  | Obj "(string \<times> jsval) list"

record AdditionalQuestionAnswer =
  question :: string
  answer :: string

record ProviderResponse =
  provider :: Provider
  response :: string
  brandAnalyses :: jsval
  additionalAnswers :: "AdditionalQuestionAnswer list"
  error :: "string option"

record AnalysisResult =
  prompt :: string
  providerResponses :: "ProviderResponse list"

record LlmClients =
  gemini_client :: "string option"
  openai_client :: "string option"
  perplexity_client :: "string option"
  copilot_client :: "(string \<times> string) option"

datatype Status = pending | in_progress | completed | error_status

record Task =
  task_id :: string
  description :: string
  status :: Status
  task_error :: "string option"

section \<open>Thrown values and the outside world\<close>

text \<open>A thrown value is an \<open>Error\<close> instance with its message, or something else
  (\<open>e instanceof Error\<close> is false).\<close>

datatype exn = Error string | NonError

datatype Credentials =
    GeminiClient string
  | BearerKey string
  | AzureClient string string

text \<open>The three kinds of request an adapter sends: the prompt itself, the brand extraction over
  the raw reply (with the brand list), and one auxiliary question (with its position) over the raw
  reply.\<close>

datatype Request =
    RawCompletion string
  | Extraction "string list" string
  | Ask nat string string

text \<open>One adapter invocation sees the network as a function from the credentials, the model and
  the request to the moment the call settles and its outcome: a thrown value (transport failure,
  non-2xx status, malformed body) or the reply's text content.\<close>

type_synonym Network = "Credentials \<Rightarrow> string \<Rightarrow> Request \<Rightarrow> nat \<times> (exn + string)"

type_synonym JsonParse = "string \<Rightarrow> exn + jsval"

section \<open>Client initializer\<close>

definition initializeClients :: "AppConfig \<Rightarrow> exn + LlmClients" where
  "initializeClients config =
    (let clients = \<lparr>gemini_client = None, openai_client = None,
                     perplexity_client = None, copilot_client = None\<rparr> in
     if gemini \<in> set (providers config) \<and> \<not> truthy (gemini_key (apiKeys config))
     then Inl (Error ''Google Gemini API Key is missing.'')
     else
       let clients = (if gemini \<in> set (providers config)
                      then clients\<lparr>gemini_client := gemini_key (apiKeys config)\<rparr> else clients);
           clients = (if openai \<in> set (providers config) \<and> truthy (openai_key (apiKeys config))
                      then clients\<lparr>openai_client := openai_key (apiKeys config)\<rparr> else clients);
           clients = (if perplexity \<in> set (providers config)
                          \<and> truthy (perplexity_key (apiKeys config))
                      then clients\<lparr>perplexity_client := perplexity_key (apiKeys config)\<rparr>
                      else clients);
           clients = (if copilot \<in> set (providers config) \<and> truthy (copilotKey (apiKeys config))
                          \<and> truthy (copilotEndpoint (apiKeys config))
                      then clients\<lparr>copilot_client :=
                             Some (the (copilotKey (apiKeys config)),
                                   the (copilotEndpoint (apiKeys config)))\<rparr>
                      else clients)
       in Inr clients)"

section \<open>Provider adapters\<close>

fun js_truthy :: "jsval \<Rightarrow> bool" where
  "js_truthy Undefined = False"
| "js_truthy Null = False"
| "js_truthy (Bool b) = b"
| "js_truthy (Num n) = (n \<noteq> 0)"
| "js_truthy (Str s) = (s \<noteq> [])"
| "js_truthy (Arr _) = True"
| "js_truthy (Obj _) = True"

text \<open>The property access \<open>.brands\<close>: a \<open>TypeError\<close> on \<open>null\<close> and \<open>undefined\<close>, the member of
  an object when it has one, \<open>undefined\<close> otherwise.\<close>

fun get_brands :: "jsval \<Rightarrow> exn + jsval" where
  "get_brands Undefined = Inl (Error ''Cannot read properties of undefined (reading 'brands')'')"
| "get_brands Null = Inl (Error ''Cannot read properties of null (reading 'brands')'')"
| "get_brands (Obj members) =
     Inr (case map_of members ''brands'' of None \<Rightarrow> Undefined | Some v \<Rightarrow> v)"
| "get_brands _ = Inr Undefined"

text \<open>\<open>v || []\<close>\<close>

definition or_empty :: "jsval \<Rightarrow> jsval" where
  "or_empty v = (if js_truthy v then v else Arr [])"

text \<open>\<open>e instanceof Error ? e.message : fallback\<close>\<close>

definition error_message :: "exn \<Rightarrow> string \<Rightarrow> string" where
  "error_message e fallback = (case e of Error m \<Rightarrow> m | NonError \<Rightarrow> fallback)"

text \<open>\<open>Promise.all\<close> over calls given with the moment each settles: the values in input order when
  every call fulfils, otherwise the reason of the rejection that settles first.\<close>

definition promise_all :: "(nat \<times> (exn + 'a)) list \<Rightarrow> exn + 'a list" where
  "promise_all settled =
    (case [e. (t, Inl e) \<leftarrow> sort_key fst settled] of
       [] \<Rightarrow> Inr [a. (t, Inr a) \<leftarrow> settled]
     | e # _ \<Rightarrow> Inl e)"

text \<open>Sequencing inside a \<open>try\<close> block: a thrown value skips the rest of the block.\<close>

definition bind_exn :: "exn + 'a \<Rightarrow> ('a \<Rightarrow> exn + 'b) \<Rightarrow> exn + 'b" where
  "bind_exn r f = (case r of Inl e \<Rightarrow> Inl e | Inr v \<Rightarrow> f v)"

text \<open>Step 3 of every adapter: one request per auxiliary question, all issued together.\<close>

definition answer_questions ::
  "(Request \<Rightarrow> nat \<times> (exn + string)) \<Rightarrow> string list \<Rightarrow> string
     \<Rightarrow> exn + AdditionalQuestionAnswer list" where
  "answer_questions send questions text =
    promise_all (map (\<lambda>(k, q).
        (case send (Ask k q text) of
           (t, Inl e) \<Rightarrow> (t, Inl e)
         | (t, Inr a) \<Rightarrow> (t, Inr \<lparr>question = q, answer = a\<rparr>)))
      (enumerate 0 questions))"

definition runGeminiAnalysisForPrompt ::
  "Network \<Rightarrow> JsonParse \<Rightarrow> string \<Rightarrow> AppConfig \<Rightarrow> string \<Rightarrow> string
     \<Rightarrow> ProviderResponse" where
  "runGeminiAnalysisForPrompt net parse prompt_text config client model =
    (let allBrands = clientName config # competitors config;
         send = net (GeminiClient client) model;
         attempt =
           bind_exn (snd (send (RawCompletion prompt_text))) (\<lambda>response_text.
           bind_exn (snd (send (Extraction allBrands response_text))) (\<lambda>analysis_text.
           bind_exn (parse analysis_text) (\<lambda>brand_list.
           bind_exn (answer_questions send (additionalQuestions config) response_text) (\<lambda>answers.
             Inr \<lparr>provider = gemini, response = response_text, brandAnalyses = brand_list,
                  additionalAnswers = answers, error = None\<rparr>))))
     in case attempt of
          Inr r \<Rightarrow> r
        | Inl e \<Rightarrow> \<lparr>provider = gemini, response = [], brandAnalyses = Arr [],
                    additionalAnswers = [],
                    error = Some (error_message e ''An unknown Gemini error occurred.'')\<rparr>)"

definition runOpenAIAnalysisForPrompt ::
  "Network \<Rightarrow> JsonParse \<Rightarrow> string \<Rightarrow> AppConfig \<Rightarrow> string \<Rightarrow> string
     \<Rightarrow> ProviderResponse" where
  "runOpenAIAnalysisForPrompt net parse prompt_text config apiKey model =
    (let allBrands = clientName config # competitors config;
         send = net (BearerKey apiKey) model;
         attempt =
           bind_exn (snd (send (RawCompletion prompt_text))) (\<lambda>response_text.
           bind_exn (snd (send (Extraction allBrands response_text))) (\<lambda>analysis_text.
           bind_exn (map_sum id or_empty (bind_exn (parse analysis_text) get_brands)) (\<lambda>brand_list.
           bind_exn (answer_questions send (additionalQuestions config) response_text) (\<lambda>answers.
             Inr \<lparr>provider = openai, response = response_text, brandAnalyses = brand_list,
                  additionalAnswers = answers, error = None\<rparr>))))
     in case attempt of
          Inr r \<Rightarrow> r
        | Inl e \<Rightarrow> \<lparr>provider = openai, response = [], brandAnalyses = Arr [],
                    additionalAnswers = [],
                    error = Some (error_message e ''An unknown OpenAI error occurred.'')\<rparr>)"

text \<open>The pattern \<open>/```json\n([\s\S]*?)\n```/\<close>: the text between the first \<open>```json\<close> line
  opener and the first \<open>\n```\<close> after it.\<close>

fun split_at_first :: "string \<Rightarrow> string \<Rightarrow> (string \<times> string) option" where
  "split_at_first pat [] = (if pat = [] then Some ([], []) else None)"
| "split_at_first pat (c # cs) =
     (if take (length pat) (c # cs) = pat then Some ([], drop (length pat) (c # cs))
      else map_option (\<lambda>(before, after). (c # before, after)) (split_at_first pat cs))"

definition match_json_block :: "string \<Rightarrow> string option" where
  "match_json_block content =
    (case split_at_first (''```json'' @ [CHR 0x0A]) content of
       None \<Rightarrow> None
     | Some (_, rest) \<Rightarrow> map_option fst (split_at_first (CHR 0x0A # ''```'') rest))"

definition runPerplexityAnalysisForPrompt ::
  "Network \<Rightarrow> JsonParse \<Rightarrow> string \<Rightarrow> AppConfig \<Rightarrow> string \<Rightarrow> string
     \<Rightarrow> ProviderResponse" where
  "runPerplexityAnalysisForPrompt net parse prompt_text config apiKey model =
    (let allBrands = clientName config # competitors config;
         send = net (BearerKey apiKey) model;
         attempt =
           bind_exn (snd (send (RawCompletion prompt_text))) (\<lambda>response_text.
           bind_exn (snd (send (Extraction allBrands response_text))) (\<lambda>analysis_text.
           bind_exn (case match_json_block analysis_text of
                       Some jsonMatch \<Rightarrow> bind_exn (parse jsonMatch) get_brands
                     | None \<Rightarrow> Inr (Arr [])) (\<lambda>brand_list.
           bind_exn (answer_questions send (additionalQuestions config) response_text) (\<lambda>answers.
             Inr \<lparr>provider = perplexity, response = response_text, brandAnalyses = brand_list,
                  additionalAnswers = answers, error = None\<rparr>))))
     in case attempt of
          Inr r \<Rightarrow> r
        | Inl e \<Rightarrow> \<lparr>provider = perplexity, response = [], brandAnalyses = Arr [],
                    additionalAnswers = [],
                    error = Some (error_message e ''An unknown Perplexity error occurred.'')\<rparr>)"

definition runCopilotAnalysisForPrompt ::
  "Network \<Rightarrow> JsonParse \<Rightarrow> string \<Rightarrow> AppConfig \<Rightarrow> string \<times> string \<Rightarrow> string
     \<Rightarrow> ProviderResponse" where
  "runCopilotAnalysisForPrompt net parse prompt_text config client model =
    (let allBrands = clientName config # competitors config;
         send = net (AzureClient (fst client) (snd client)) model;
         attempt =
           bind_exn (snd (send (RawCompletion prompt_text))) (\<lambda>response_text.
           bind_exn (snd (send (Extraction allBrands response_text))) (\<lambda>analysis_text.
           bind_exn (map_sum id or_empty (bind_exn (parse analysis_text) get_brands)) (\<lambda>brand_list.
           bind_exn (answer_questions send (additionalQuestions config) response_text) (\<lambda>answers.
             Inr \<lparr>provider = copilot, response = response_text, brandAnalyses = brand_list,
                  additionalAnswers = answers, error = None\<rparr>))))
     in case attempt of
          Inr r \<Rightarrow> r
        | Inl e \<Rightarrow> \<lparr>provider = copilot, response = [], brandAnalyses = Arr [],
                    additionalAnswers = [],
                    error = Some (error_message e ''An unknown Copilot/Azure error occurred.'')\<rparr>)"

section \<open>Task tracker\<close>

definition providerBaseNames :: "Provider \<Rightarrow> string" where
  "providerBaseNames p = (case p of
      gemini \<Rightarrow> ''Google Gemini''
    | openai \<Rightarrow> ''OpenAI''
    | perplexity \<Rightarrow> ''Perplexity''
    | copilot \<Rightarrow> ''Copilot / Azure'')"

text \<open>What a template literal renders for a provider tag and for a prompt index.\<close>

definition provider_name :: "Provider \<Rightarrow> string" where
  "provider_name p = (case p of
      gemini \<Rightarrow> ''gemini''
    | openai \<Rightarrow> ''openai''
    | perplexity \<Rightarrow> ''perplexity''
    | copilot \<Rightarrow> ''copilot'')"

definition digit_char :: "nat \<Rightarrow> char" where
  "digit_char d = char_of (48 + d)"

function string_of_nat :: "nat \<Rightarrow> string" where
  "string_of_nat n =
     (if n < 10 then [digit_char n] else string_of_nat (n div 10) @ [digit_char (n mod 10)])"
  by pat_completeness auto

termination
  by (relation "measure id") auto

declare string_of_nat.simps [simp del]

definition taskId :: "nat \<Rightarrow> Provider \<Rightarrow> string" where
  "taskId pIndex p = ''prompt-'' @ string_of_nat pIndex @ ''-'' @ provider_name p"

definition initial_task :: "AppConfig \<Rightarrow> nat \<Rightarrow> string \<Rightarrow> Provider \<Rightarrow> Task" where
  "initial_task config pIndex prompt_text p =
    (let modelName = (if truthy (models config p) then the (models config p) else ''default'');
         shortPrompt = (if length prompt_text > 40 then take 40 prompt_text @ ''...''
                        else prompt_text)
     in \<lparr>task_id = taskId pIndex p,
         description = ''Analyzing '' @ [CHR 0x22] @ shortPrompt @ [CHR 0x22] @ '' with ''
                         @ providerBaseNames p @ '' ('' @ modelName @ '')'',
         status = pending,
         task_error = None\<rparr>)"

text \<open>The nested \<open>forEach\<close> that fills \<open>tasks\<close>: prompts outside, providers inside.\<close>

definition initial_tasks :: "AppConfig \<Rightarrow> Task list" where
  "initial_tasks config =
    concat (map (\<lambda>(pIndex, prompt_text).
                   map (initial_task config pIndex prompt_text) (providers config))
                (enumerate 0 (prompts config)))"

text \<open>Task objects live in a store (\<open>heap\<close>, addressed by position in allocation order); the
  orchestrator's \<open>tasks\<close> array holds their addresses. Every call of \<open>onProgress\<close> is recorded in
  \<open>emitted\<close> as the array it was given together with the store at that moment, and \<open>issued\<close>
  records each adapter invocation, which sends its raw-completion request at once.\<close>

record RunState =
  heap :: "Task list"
  tasks :: "nat list"
  emitted :: "(nat list \<times> Task list) list"
  issued :: "(nat \<times> Provider) list"

text \<open>What an observer reads from an array of task references in a given store.\<close>

definition deref :: "Task list \<Rightarrow> nat list \<Rightarrow> Task list" where
  "deref h refs = map (\<lambda>a. h ! a) refs"

definition observed :: "nat list \<times> Task list \<Rightarrow> Task list" where
  "observed snapshot = deref (snd snapshot) (fst snapshot)"

fun findIndex :: "('a \<Rightarrow> bool) \<Rightarrow> 'a list \<Rightarrow> nat option" where
  "findIndex P [] = None"
| "findIndex P (x # xs) = (if P x then Some 0 else map_option Suc (findIndex P xs))"

definition updateTaskStatus :: "string \<Rightarrow> Status \<Rightarrow> string option \<Rightarrow> RunState \<Rightarrow> RunState" where
  "updateTaskStatus taskId' new_status err st =
    (case findIndex (\<lambda>t. task_id t = taskId') (deref (heap st) (tasks st)) of
       None \<Rightarrow> st
     | Some taskIndex \<Rightarrow>
         let a = tasks st ! taskIndex;
             t = (heap st ! a)\<lparr>status := new_status\<rparr>;
             t = (if truthy err then t\<lparr>task_error := err\<rparr> else t);
             h = (heap st)[a := t]
         in st\<lparr>heap := h, emitted := emitted st @ [(tasks st, h)]\<rparr>)"

section \<open>Orchestrator\<close>

text \<open>For the adapter call of each (prompt index, provider): the network it sees and the moment
  its promise settles; and \<open>JSON.parse\<close>.\<close>

record Env =
  net :: "nat \<Rightarrow> Provider \<Rightarrow> Network"
  finish :: "nat \<Rightarrow> Provider \<Rightarrow> nat"
  json_parse :: JsonParse

text \<open>The \<open>switch\<close> of the mapper: \<open>Inl\<close> is the \<open>throw\<close> of a guard, which is outside the
  \<open>try\<close> block; \<open>Inr\<close> is the outcome of awaiting \<open>providerFunction()\<close>.\<close>

definition dispatch ::
  "Env \<Rightarrow> AppConfig \<Rightarrow> LlmClients \<Rightarrow> nat \<Rightarrow> string \<Rightarrow> Provider \<Rightarrow> exn + (exn + ProviderResponse)" where
  "dispatch env config clients pIndex prompt_text p =
    (case p of
       gemini \<Rightarrow>
         if gemini_client clients = None \<or> \<not> truthy (models config gemini)
         then Inl (Error ''Gemini client not initialized properly.'')
         else Inr (Inr (runGeminiAnalysisForPrompt (net env pIndex gemini) (json_parse env)
                 prompt_text config (the (gemini_client clients)) (the (models config gemini))))
     | openai \<Rightarrow>
         if \<not> truthy (openai_client clients) \<or> \<not> truthy (models config openai)
         then Inl (Error ''OpenAI client not initialized properly.'')
         else Inr (Inr (runOpenAIAnalysisForPrompt (net env pIndex openai) (json_parse env)
                 prompt_text config (the (openai_client clients)) (the (models config openai))))
     | perplexity \<Rightarrow>
         if \<not> truthy (perplexity_client clients) \<or> \<not> truthy (models config perplexity)
         then Inl (Error ''Perplexity client not initialized properly.'')
         else Inr (Inr (runPerplexityAnalysisForPrompt (net env pIndex perplexity) (json_parse env)
                 prompt_text config (the (perplexity_client clients))
                 (the (models config perplexity))))
     | copilot \<Rightarrow>
         if copilot_client clients = None \<or> \<not> truthy (models config copilot)
         then Inl (Error ''Copilot client not initialized properly.'')
         else Inr (Inr (runCopilotAnalysisForPrompt (net env pIndex copilot) (json_parse env)
                 prompt_text config (the (copilot_client clients)) (the (models config copilot)))))"

text \<open>The \<open>try\<close>/\<open>catch\<close> of the mapper around \<open>await providerFunction()\<close>: the status and
  message it records for the task, and the value it returns.\<close>

definition mapper_result ::
  "Provider \<Rightarrow> exn + ProviderResponse \<Rightarrow> (Status \<times> string option) \<times> ProviderResponse" where
  "mapper_result p outcome =
    (case outcome of
       Inr r \<Rightarrow>
         if truthy (error r) then ((error_status, error r), r) else ((completed, None), r)
     | Inl e \<Rightarrow>
         let errorMsg = error_message e ''An unknown error occurred.''
         in ((error_status, Some errorMsg),
             \<lparr>provider = p, response = [], brandAnalyses = Arr [], additionalAnswers = [],
              error = Some errorMsg\<rparr>))"

text \<open>The synchronous part of one mapper call, up to its first \<open>await\<close>.\<close>

definition start_mapper ::
  "Env \<Rightarrow> AppConfig \<Rightarrow> LlmClients \<Rightarrow> nat \<Rightarrow> string \<Rightarrow> RunState \<Rightarrow> Provider \<Rightarrow> RunState" where
  "start_mapper env config clients pIndex prompt_text st p =
    (let st1 = updateTaskStatus (taskId pIndex p) in_progress None st
     in case dispatch env config clients pIndex prompt_text p of
          Inl _ \<Rightarrow> st1
        | Inr _ \<Rightarrow> st1\<lparr>issued := issued st1 @ [(pIndex, p)]\<rparr>)"

text \<open>The rest of one mapper call, run when its adapter call has settled.\<close>

definition settle_mapper ::
  "Env \<Rightarrow> AppConfig \<Rightarrow> LlmClients \<Rightarrow> nat \<Rightarrow> string \<Rightarrow> RunState \<Rightarrow> Provider \<Rightarrow> RunState" where
  "settle_mapper env config clients pIndex prompt_text st p =
    (case dispatch env config clients pIndex prompt_text p of
       Inl _ \<Rightarrow> st
     | Inr outcome \<Rightarrow>
         (case fst (mapper_result p outcome) of
            (new_status, err) \<Rightarrow> updateTaskStatus (taskId pIndex p) new_status err st))"

text \<open>One iteration of the loop over prompts: every mapper is started in selection order; a
  rejected mapper promise makes \<open>await Promise.all\<close> throw before any adapter call settles
  (the state returned with the thrown value is the state at that moment; what the adapter calls
  already under way do afterwards is not followed); otherwise the mappers finish in the order
  their adapter calls settle and the responses are collected in selection order.\<close>

definition run_prompt ::
  "Env \<Rightarrow> AppConfig \<Rightarrow> LlmClients \<Rightarrow> nat \<Rightarrow> string \<Rightarrow> RunState
     \<Rightarrow> (exn + AnalysisResult) \<times> RunState" where
  "run_prompt env config clients pIndex prompt_text st =
    (let st1 = foldl (start_mapper env config clients pIndex prompt_text) st (providers config);
         promises = map (dispatch env config clients pIndex prompt_text) (providers config)
     in case [e. Inl e \<leftarrow> promises] of
          e # _ \<Rightarrow> (Inl e, st1)
        | [] \<Rightarrow>
            (Inr \<lparr>prompt = prompt_text,
                  providerResponses =
                    [snd (mapper_result p outcome).
                       p \<leftarrow> providers config,
                       Inr outcome \<leftarrow> [dispatch env config clients pIndex prompt_text p]]\<rparr>,
             foldl (settle_mapper env config clients pIndex prompt_text) st1
               (sort_key (finish env pIndex) (providers config))))"

fun run_prompts ::
  "Env \<Rightarrow> AppConfig \<Rightarrow> LlmClients \<Rightarrow> nat \<Rightarrow> string list \<Rightarrow> AnalysisResult list \<Rightarrow> RunState
     \<Rightarrow> (exn + AnalysisResult list) \<times> RunState" where
  "run_prompts env config clients pIndex [] resultsByPrompt st = (Inr resultsByPrompt, st)"
| "run_prompts env config clients pIndex (prompt_text # rest) resultsByPrompt st =
     (case run_prompt env config clients pIndex prompt_text st of
        (Inl e, st') \<Rightarrow> (Inl e, st')
      | (Inr r, st') \<Rightarrow>
          run_prompts env config clients (Suc pIndex) rest (resultsByPrompt @ [r]) st')"

definition runAnalysis :: "Env \<Rightarrow> AppConfig \<Rightarrow> (exn + AnalysisResult list) \<times> RunState" where
  "runAnalysis env config =
    (case initializeClients config of
       Inl e \<Rightarrow> (Inl e, \<lparr>heap = [], tasks = [], emitted = [], issued = []\<rparr>)
     | Inr clients \<Rightarrow>
         let h = initial_tasks config;
             refs = [0..<length h];
             st = \<lparr>heap = h, tasks = refs, emitted = [(refs, h)], issued = []\<rparr>
         in run_prompts env config clients 0 (prompts config) [] st)"

section \<open>Vocabulary of the properties\<close>

text \<open>The failure shape of a response: \<open>error\<close> set, no data.\<close>

definition error_shaped :: "ProviderResponse \<Rightarrow> bool" where
  "error_shaped r \<longleftrightarrow>
     error r \<noteq> None \<and> response r = [] \<and> brandAnalyses r = Arr [] \<and> additionalAnswers r = []"

text \<open>What \<open>updateTaskStatus\<close> writes into the task it finds.\<close>

definition marked :: "Status \<Rightarrow> string option \<Rightarrow> Task \<Rightarrow> Task" where
  "marked s err t = (if truthy err then t\<lparr>status := s, task_error := err\<rparr> else t\<lparr>status := s\<rparr>)"

text \<open>The tracker between two calls of \<open>updateTaskStatus\<close>: the array holds the addresses of all
  tasks in allocation order, something has been emitted, the last emission shows the current
  store, and every emission was given the same references over a store of the same size.\<close>

definition tracker_inv :: "RunState \<Rightarrow> bool" where
  "tracker_inv st \<longleftrightarrow>
     tasks st = [0..<length (heap st)] \<and> emitted st \<noteq> [] \<and> last (emitted st) = (tasks st, heap st)
     \<and> (\<forall>snapshot \<in> set (emitted st).
           fst snapshot = tasks st \<and> length (snd snapshot) = length (heap st))"

text \<open>The successive statuses an observer has seen for the task at position \<open>k\<close>, repetitions from
  emissions that changed other tasks removed.\<close>

definition status_history :: "RunState \<Rightarrow> nat \<Rightarrow> Status list" where
  "status_history st k = remdups_adj (map (\<lambda>snapshot. status (observed snapshot ! k)) (emitted st))"

text \<open>The effect of a sequence \<open>xs\<close> of status updates with distinct task ids, update \<open>x\<close> setting the
  task \<open>tid x\<close> to \<open>sts x\<close> with message \<open>err x\<close>.\<close>

definition marks_effect ::
  "('x \<Rightarrow> string) \<Rightarrow> ('x \<Rightarrow> Status) \<Rightarrow> ('x \<Rightarrow> string option) \<Rightarrow> 'x list
     \<Rightarrow> RunState \<Rightarrow> RunState \<Rightarrow> bool" where
  "marks_effect tid sts err xs st st' \<longleftrightarrow>
     tracker_inv st' \<and> map task_id (heap st') = map task_id (heap st)
     \<and> (\<forall>k<length (heap st).
          (\<forall>x\<in>set xs. task_id (heap st ! k) = tid x \<longrightarrow>
             heap st' ! k = marked (sts x) (err x) (heap st ! k)
             \<and> status_history st' k = status_history st k @ [sts x])
        \<and> (task_id (heap st ! k) \<notin> tid ` set xs \<longrightarrow>
             heap st' ! k = heap st ! k \<and> status_history st' k = status_history st k))"

text \<open>The status and message the mapper of a provider records when its adapter call has settled, and
  the response it returns.\<close>

definition settled_mark ::
  "Env \<Rightarrow> AppConfig \<Rightarrow> LlmClients \<Rightarrow> nat \<Rightarrow> string \<Rightarrow> Provider \<Rightarrow> Status \<times> string option" where
  "settled_mark env config clients pIndex prompt_text p =
     (case dispatch env config clients pIndex prompt_text p of
        Inr outcome \<Rightarrow> fst (mapper_result p outcome)
      | Inl _ \<Rightarrow> (in_progress, None))"

definition settled_response ::
  "Env \<Rightarrow> AppConfig \<Rightarrow> LlmClients \<Rightarrow> nat \<Rightarrow> string \<Rightarrow> Provider \<Rightarrow> ProviderResponse" where
  "settled_response env config clients pIndex prompt_text p =
     (case dispatch env config clients pIndex prompt_text p of
        Inr outcome \<Rightarrow> snd (mapper_result p outcome)
      | Inl e \<Rightarrow> snd (mapper_result p (Inl e)))"

text \<open>The terminal statuses.\<close>

definition terminal :: "Status \<Rightarrow> bool" where
  "terminal s \<longleftrightarrow> s = completed \<or> s = error_status"

text \<open>What one iteration of the loop over prompts does to the tracker when no guard throws:
  the tasks of this prompt go through \<open>in_progress\<close> to the status their mapper records, and
  every other task is left alone.\<close>

definition prompt_effect ::
  "Env \<Rightarrow> AppConfig \<Rightarrow> LlmClients \<Rightarrow> nat \<Rightarrow> string \<Rightarrow> RunState \<Rightarrow> RunState \<Rightarrow> bool" where
  "prompt_effect env cfg cl i pt st st' \<longleftrightarrow>
     tracker_inv st' \<and> map task_id (heap st') = map task_id (heap st)
     \<and> (\<forall>k<length (heap st).
          (\<forall>p\<in>set (providers cfg). task_id (heap st ! k) = taskId i p \<longrightarrow>
             heap st' ! k = marked (fst (settled_mark env cfg cl i pt p))
                              (snd (settled_mark env cfg cl i pt p))
                              (marked in_progress None (heap st ! k))
             \<and> status_history st' k =
                 status_history st k @ [in_progress, fst (settled_mark env cfg cl i pt p)])
        \<and> (task_id (heap st ! k) \<notin> taskId i ` set (providers cfg) \<longrightarrow>
             heap st' ! k = heap st ! k \<and> status_history st' k = status_history st k))"

text \<open>The guard of the \<open>switch\<close> in the mapper passes for this provider.\<close>

definition guard_ok :: "AppConfig \<Rightarrow> LlmClients \<Rightarrow> Provider \<Rightarrow> bool" where
  "guard_ok cfg cl p =
     (truthy (models cfg p) \<and>
      (case p of
         gemini \<Rightarrow> gemini_client cl \<noteq> None
       | openai \<Rightarrow> truthy (openai_client cl)
       | perplexity \<Rightarrow> truthy (perplexity_client cl)
       | copilot \<Rightarrow> copilot_client cl \<noteq> None))"

text \<open>What the loop over the prompts \<open>pts\<close>, numbered from \<open>i\<close>, does to the tracker when no guard
  throws.\<close>

definition run_effect ::
  "Env \<Rightarrow> AppConfig \<Rightarrow> LlmClients \<Rightarrow> nat \<Rightarrow> string list \<Rightarrow> RunState \<Rightarrow> RunState \<Rightarrow> bool" where
  "run_effect env cfg cl i pts st st' \<longleftrightarrow>
     tracker_inv st' \<and> map task_id (heap st') = map task_id (heap st)
     \<and> (\<forall>k<length (heap st).
          (\<forall>j<length pts. \<forall>p\<in>set (providers cfg). task_id (heap st ! k) = taskId (i + j) p \<longrightarrow>
             heap st' ! k = marked (fst (settled_mark env cfg cl (i + j) (pts ! j) p))
                              (snd (settled_mark env cfg cl (i + j) (pts ! j) p))
                              (marked in_progress None (heap st ! k))
             \<and> status_history st' k =
                 status_history st k
                   @ [in_progress, fst (settled_mark env cfg cl (i + j) (pts ! j) p)])
        \<and> ((\<forall>j<length pts. \<forall>p\<in>set (providers cfg). task_id (heap st ! k) \<noteq> taskId (i + j) p) \<longrightarrow>
             heap st' ! k = heap st ! k \<and> status_history st' k = status_history st k))"

text \<open>The state in which the loop over prompts starts: all tasks allocated and emitted once.\<close>

definition initial_state :: "AppConfig \<Rightarrow> RunState" where
  "initial_state cfg =
     \<lparr>heap = initial_tasks cfg, tasks = [0..<length (initial_tasks cfg)],
      emitted = [([0..<length (initial_tasks cfg)], initial_tasks cfg)], issued = []\<rparr>"

text \<open>The results of a run in which no guard throws.\<close>

definition expected_results :: "Env \<Rightarrow> AppConfig \<Rightarrow> LlmClients \<Rightarrow> AnalysisResult list" where
  "expected_results env cfg cl =
     map (\<lambda>(j, pt). \<lparr>prompt = pt,
                     providerResponses = map (settled_response env cfg cl j pt) (providers cfg)\<rparr>)
         (enumerate 0 (prompts cfg))"

text \<open>What holds of the tracker throughout every run: its invariant, the number of tasks and the
  first emission.\<close>

definition base_inv :: "nat list \<times> Task list \<Rightarrow> nat \<Rightarrow> RunState \<Rightarrow> bool" where
  "base_inv first n st \<longleftrightarrow> tracker_inv st \<and> length (heap st) = n \<and> hd (emitted st) = first"

text \<open>A selected provider lacks a required credential or its model identifier.\<close>

definition lacks_binding :: "AppConfig \<Rightarrow> Provider \<Rightarrow> bool" where
  "lacks_binding cfg p \<longleftrightarrow>
     \<not> truthy (models cfg p) \<or>
     (case p of
        gemini \<Rightarrow> \<not> truthy (gemini_key (apiKeys cfg))
      | openai \<Rightarrow> \<not> truthy (openai_key (apiKeys cfg))
      | perplexity \<Rightarrow> \<not> truthy (perplexity_key (apiKeys cfg))
      | copilot \<Rightarrow> \<not> truthy (copilotKey (apiKeys cfg)) \<or> \<not> truthy (copilotEndpoint (apiKeys cfg)))"

section \<open>Example inputs\<close>

text \<open>A network on which every call succeeds at once: the raw completion, the extraction reply, and
  the same answer to every auxiliary question.\<close>

definition reply_with :: "string \<Rightarrow> string \<Rightarrow> Network" where
  "reply_with raw extraction = (\<lambda>cred model request.
     (0, case request of
           RawCompletion _ \<Rightarrow> Inr raw
         | Extraction _ _ \<Rightarrow> Inr extraction
         | Ask _ _ _ \<Rightarrow> Inr ''answer''))"

text \<open>A network on which every call is rejected with the given thrown value.\<close>

definition failing_with :: "exn \<Rightarrow> Network" where
  "failing_with e = (\<lambda>cred model request. (0, Inl e))"

text \<open>A stand-in for \<open>JSON.parse\<close> that knows two documents.\<close>

definition example_parse :: JsonParse where
  "example_parse s =
     (if s = ''{}'' then Inr (Obj [])
      else if s = ''[]'' then Inr (Arr [])
      else Inl (Error ''Unexpected token in JSON''))"

text \<open>One prompt, two providers, both fully configured.\<close>

definition example_config :: AppConfig where
  "example_config =
     \<lparr>providers = [gemini, openai],
      apiKeys = \<lparr>gemini_key = Some ''g-key'', openai_key = Some ''o-key'', perplexity_key = None,
                 copilotKey = None, copilotEndpoint = None\<rparr>,
      models = (\<lambda>p. Some ''model''),
      clientName = ''Acme'',
      competitors = [''Globex''],
      prompts = [''best anvils''],
      additionalQuestions = []\<rparr>"

text \<open>Both providers answer; the OpenAI call settles before the Gemini call.\<close>

definition example_env :: Env where
  "example_env = \<lparr>net = (\<lambda>pIndex p. reply_with ''Anvils by Acme.'' ''{}''),
                  finish = (\<lambda>pIndex p. if p = gemini then 5 else 1),
                  json_parse = example_parse\<rparr>"

text \<open>The same, with the Gemini call for the first prompt failing.\<close>

definition example_env_outage :: Env where
  "example_env_outage =
     example_env\<lparr>net := (\<lambda>pIndex p. if (pIndex, p) = (0, gemini)
                                   then failing_with (Error ''API Error (503): unavailable'')
                                   else net example_env pIndex p)\<rparr>"


text \<open>The example configuration without its OpenAI key.\<close>

definition misconfigured_config :: AppConfig where
  "misconfigured_config = example_config\<lparr>apiKeys := (apiKeys example_config)\<lparr>openai_key := None\<rparr>\<rparr>"

section \<open>Shape of provider responses\<close>

lemma adapter_error_shapes:
  "error (runGeminiAnalysisForPrompt n ps pt cfg c m) \<noteq> None
     \<Longrightarrow> error_shaped (runGeminiAnalysisForPrompt n ps pt cfg c m)"
  "error (runOpenAIAnalysisForPrompt n ps pt cfg c m) \<noteq> None
     \<Longrightarrow> error_shaped (runOpenAIAnalysisForPrompt n ps pt cfg c m)"
  "error (runPerplexityAnalysisForPrompt n ps pt cfg c m) \<noteq> None
     \<Longrightarrow> error_shaped (runPerplexityAnalysisForPrompt n ps pt cfg c m)"
  "error (runCopilotAnalysisForPrompt n ps pt cfg cc m) \<noteq> None
     \<Longrightarrow> error_shaped (runCopilotAnalysisForPrompt n ps pt cfg cc m)"
  by (auto simp: runGeminiAnalysisForPrompt_def runOpenAIAnalysisForPrompt_def
      runPerplexityAnalysisForPrompt_def runCopilotAnalysisForPrompt_def error_shaped_def
      bind_exn_def Let_def split: sum.splits option.splits)

section \<open>One status update\<close>

lemma findIndex_None: "findIndex P xs = None \<longleftrightarrow> (\<forall>x\<in>set xs. \<not> P x)"
  by (induction xs) auto

lemma findIndex_Some:
  "findIndex P xs = Some k \<Longrightarrow> k < length xs \<and> P (xs ! k) \<and> (\<forall>j<k. \<not> P (xs ! j))"
proof (induction xs arbitrary: k)
  case Nil
  then show ?case by simp
next
  case (Cons x xs)
  show ?case
  proof (cases "P x")
    case True
    with Cons.prems show ?thesis by simp
  next
    case False
    with Cons.prems obtain k' where k': "findIndex P xs = Some k'" "k = Suc k'"
      by auto
    from Cons.IH[OF k'(1)] False k'(2) show ?thesis
      by (auto simp: nth_Cons split: nat.splits)
  qed
qed

lemma deref_all: "deref h [0..<length h] = h"
  by (simp add: deref_def map_nth)

lemma update_not_found:
  assumes "tracker_inv st" "tid \<notin> task_id ` set (heap st)"
  shows "updateTaskStatus tid s e st = st"
proof -
  from assms(1) have "deref (heap st) (tasks st) = heap st"
    by (simp add: tracker_inv_def deref_all)
  moreover from assms(2) have "findIndex (\<lambda>t. task_id t = tid) (heap st) = None"
    by (auto simp: findIndex_None)
  ultimately show ?thesis by (simp add: updateTaskStatus_def)
qed

lemma update_found:
  assumes "tracker_inv st" "findIndex (\<lambda>t. task_id t = tid) (heap st) = Some k"
  shows "updateTaskStatus tid s e st =
           st\<lparr>heap := (heap st)[k := marked s e (heap st ! k)],
              emitted := emitted st @ [(tasks st, (heap st)[k := marked s e (heap st ! k)])]\<rparr>"
proof -
  from assms(1) have d: "deref (heap st) (tasks st) = heap st" and t: "tasks st = [0..<length (heap st)]"
    by (simp_all add: tracker_inv_def deref_all)
  from findIndex_Some[OF assms(2)] have "k < length (heap st)" by simp
  with t have "tasks st ! k = k" by simp
  with d assms(2) show ?thesis
    by (simp add: updateTaskStatus_def marked_def Let_def)
qed

lemma update_cases:
  assumes "tracker_inv st"
  obtains (absent) "tid \<notin> task_id ` set (heap st)" "updateTaskStatus tid s e st = st"
  | (present) k where "k < length (heap st)" "task_id (heap st ! k) = tid"
      "\<forall>j<k. task_id (heap st ! j) \<noteq> tid"
      "updateTaskStatus tid s e st =
         st\<lparr>heap := (heap st)[k := marked s e (heap st ! k)],
            emitted := emitted st @ [(tasks st, (heap st)[k := marked s e (heap st ! k)])]\<rparr>"
proof (cases "findIndex (\<lambda>t. task_id t = tid) (heap st)")
  case None
  then have "tid \<notin> task_id ` set (heap st)" by (auto simp: findIndex_None)
  with absent update_not_found[OF assms] show ?thesis by blast
next
  case (Some k)
  from findIndex_Some[OF Some] update_found[OF assms Some] present show ?thesis by blast
qed

lemma marked_id [simp]: "task_id (marked s e t) = task_id t"
  by (simp add: marked_def)

lemma marked_status [simp]: "status (marked s e t) = s"
  by (simp add: marked_def)

lemma update_frame:
  assumes "tracker_inv st"
  shows "tasks (updateTaskStatus tid s e st) = tasks st"
    and "issued (updateTaskStatus tid s e st) = issued st"
    and "length (heap (updateTaskStatus tid s e st)) = length (heap st)"
    and "map task_id (heap (updateTaskStatus tid s e st)) = map task_id (heap st)"
  by (cases rule: update_cases[OF assms, of tid s e]; simp add: map_update list_update_same_conv)+

lemma update_inv:
  assumes "tracker_inv st"
  shows "tracker_inv (updateTaskStatus tid s e st)"
  by (cases rule: update_cases[OF assms, of tid s e]) (use assms in \<open>auto simp: tracker_inv_def\<close>)

lemma update_emitted:
  assumes "tracker_inv st"
  shows "emitted (updateTaskStatus tid s e st) =
          (if tid \<in> task_id ` set (heap st)
           then emitted st @ [(tasks st, heap (updateTaskStatus tid s e st))] else emitted st)"
  by (cases rule: update_cases[OF assms, of tid s e]) (use assms in \<open>auto simp: tracker_inv_def\<close>)

lemma update_heap_nth:
  assumes "tracker_inv st" "distinct (map task_id (heap st))" "k < length (heap st)"
  shows "heap (updateTaskStatus tid s e st) ! k =
           (if task_id (heap st ! k) = tid then marked s e (heap st ! k) else heap st ! k)"
proof (cases rule: update_cases[OF assms(1), of tid s e])
  case 1
  with assms(3) show ?thesis by auto
next
  case (2 j)
  have "task_id (heap st ! k) = tid \<longleftrightarrow> k = j"
    using assms(2,3) 2(1,2) by (auto simp: distinct_conv_nth)
  with 2(1,4) assms(3) show ?thesis by auto
qed

subsection \<open>Status histories\<close>

lemma remdups_adj_snoc:
  "xs \<noteq> [] \<Longrightarrow>
     remdups_adj (xs @ [y]) = (if last xs = y then remdups_adj xs else remdups_adj xs @ [y])"
  by (simp add: remdups_adj_append'')

lemma observed_current:
  "tasks st = [0..<length (heap st)] \<Longrightarrow> length h = length (heap st)
     \<Longrightarrow> observed (tasks st, h) = h"
  using map_nth[of h] by (simp add: observed_def deref_def)

lemma update_history:
  assumes "tracker_inv st" "distinct (map task_id (heap st))" "k < length (heap st)"
  shows "status_history (updateTaskStatus tid s e st) k =
           (if task_id (heap st ! k) = tid \<and> status (heap st ! k) \<noteq> s
            then status_history st k @ [s] else status_history st k)"
proof (cases "tid \<in> task_id ` set (heap st)")
  case False
  with assms(3) have "task_id (heap st ! k) \<noteq> tid" by auto
  with update_not_found[OF assms(1) False] show ?thesis by simp
next
  case True
  let ?st' = "updateTaskStatus tid s e st"
  let ?f = "\<lambda>snapshot. status (observed snapshot ! k)"
  from assms(1) have t: "tasks st = [0..<length (heap st)]" and ne: "emitted st \<noteq> []"
    and l: "last (emitted st) = (tasks st, heap st)"
    by (simp_all add: tracker_inv_def)
  have em: "emitted ?st' = emitted st @ [(tasks st, heap ?st')]"
    using update_emitted[OF assms(1)] True by simp
  have "?f (tasks st, heap ?st') = status (heap ?st' ! k)"
    using observed_current[OF t, of "heap ?st'"] update_frame(3)[OF assms(1)] by simp
  moreover have "last (map ?f (emitted st)) = status (heap st ! k)"
    using ne l observed_current[OF t, of "heap st"] by (simp add: last_map)
  ultimately show ?thesis
    using ne update_heap_nth[OF assms] em
    by (simp add: status_history_def remdups_adj_snoc)
qed

lemma tracker_inv_cong:
  "heap st' = heap st \<Longrightarrow> tasks st' = tasks st \<Longrightarrow> emitted st' = emitted st
     \<Longrightarrow> tracker_inv st' = tracker_inv st"
  by (simp add: tracker_inv_def)

lemma status_history_cong: "emitted st' = emitted st \<Longrightarrow> status_history st' k = status_history st k"
  by (simp add: status_history_def)

section \<open>A sequence of status updates\<close>

lemma step_props:
  assumes "heap st1 = heap (updateTaskStatus tid s e st)"
    and "tasks st1 = tasks (updateTaskStatus tid s e st)"
    and "emitted st1 = emitted (updateTaskStatus tid s e st)"
    and "tracker_inv st" "distinct (map task_id (heap st))"
  shows "tracker_inv st1"
    and "map task_id (heap st1) = map task_id (heap st)"
    and "length (heap st1) = length (heap st)"
    and "distinct (map task_id (heap st1))"
    and "k < length (heap st) \<Longrightarrow>
           heap st1 ! k = (if task_id (heap st ! k) = tid then marked s e (heap st ! k)
                           else heap st ! k)"
    and "k < length (heap st) \<Longrightarrow>
           status_history st1 k =
             (if task_id (heap st ! k) = tid \<and> status (heap st ! k) \<noteq> s
              then status_history st k @ [s] else status_history st k)"
proof -
  show "tracker_inv st1"
    using tracker_inv_cong[OF assms(1-3)] update_inv[OF assms(4), of tid s e] by simp
  show ids: "map task_id (heap st1) = map task_id (heap st)"
    using assms(1) update_frame(4)[OF assms(4), of tid s e] by simp
  show "length (heap st1) = length (heap st)"
    using assms(1) update_frame(3)[OF assms(4), of tid s e] by simp
  show "distinct (map task_id (heap st1))"
    using ids assms(5) by simp
  show "heap st1 ! k = (if task_id (heap st ! k) = tid then marked s e (heap st ! k)
                        else heap st ! k)" if "k < length (heap st)"
    using assms(1) update_heap_nth[OF assms(4,5) that, of tid s e] by simp
  show "status_history st1 k =
             (if task_id (heap st ! k) = tid \<and> status (heap st ! k) \<noteq> s
              then status_history st k @ [s] else status_history st k)" if "k < length (heap st)"
    using update_history[OF assms(4,5) that, of tid s e] status_history_cong[OF assms(3), of k]
    by simp
qed

lemma fold_marks:
  fixes f :: "RunState \<Rightarrow> 'x \<Rightarrow> RunState"
  assumes "\<forall>x\<in>set xs. \<forall>st.
             heap (f st x) = heap (updateTaskStatus (tid x) (sts x) (err x) st)
           \<and> tasks (f st x) = tasks (updateTaskStatus (tid x) (sts x) (err x) st)
           \<and> emitted (f st x) = emitted (updateTaskStatus (tid x) (sts x) (err x) st)"
    and "tracker_inv st" "distinct (map task_id (heap st))" "distinct (map tid xs)"
    and "\<forall>x\<in>set xs. \<forall>k<length (heap st).
           task_id (heap st ! k) = tid x \<longrightarrow> status (heap st ! k) \<noteq> sts x"
  shows "marks_effect tid sts err xs st (foldl f st xs)"
  using assms
proof (induction xs arbitrary: st)
  case Nil
  then show ?case by (simp add: marks_effect_def)
next
  case (Cons y ys)
  let ?st1 = "f st y"
  from Cons.prems(1) have step: "heap (f st y) = heap (updateTaskStatus (tid y) (sts y) (err y) st)
           \<and> tasks (f st y) = tasks (updateTaskStatus (tid y) (sts y) (err y) st)
           \<and> emitted (f st y) = emitted (updateTaskStatus (tid y) (sts y) (err y) st)"
    by simp
  from Cons.prems(1) have steps: "\<forall>x\<in>set ys. \<forall>st.
             heap (f st x) = heap (updateTaskStatus (tid x) (sts x) (err x) st)
           \<and> tasks (f st x) = tasks (updateTaskStatus (tid x) (sts x) (err x) st)
           \<and> emitted (f st x) = emitted (updateTaskStatus (tid x) (sts x) (err x) st)"
    by simp
  note S = step_props[of ?st1 "tid y" "sts y" "err y" st, OF step[THEN conjunct1]
      step[THEN conjunct2, THEN conjunct1] step[THEN conjunct2, THEN conjunct2]
      Cons.prems(2,3)]
  have d': "distinct (map tid ys)" and ynot: "tid y \<notin> tid ` set ys"
    using Cons.prems(4) by auto
  have id1: "task_id (heap ?st1 ! k) = task_id (heap st ! k)" if "k < length (heap st)" for k
    using S(5)[OF that] by simp
  have pre1: "\<forall>x\<in>set ys. \<forall>k<length (heap ?st1).
                 task_id (heap ?st1 ! k) = tid x \<longrightarrow> status (heap ?st1 ! k) \<noteq> sts x"
  proof (intro ballI allI impI)
    fix x k assume x: "x \<in> set ys" and k: "k < length (heap ?st1)"
      and e: "task_id (heap ?st1 ! k) = tid x"
    from k S(3) have k': "k < length (heap st)" by simp
    from e id1[OF k'] have e': "task_id (heap st ! k) = tid x" by simp
    with x ynot have "task_id (heap st ! k) \<noteq> tid y" by force
    with S(5)[OF k'] have "heap ?st1 ! k = heap st ! k" by simp
    moreover from Cons.prems(5) x k' e' have "status (heap st ! k) \<noteq> sts x" by simp
    ultimately show "status (heap ?st1 ! k) \<noteq> sts x" by simp
  qed
  from Cons.IH[OF steps S(1) S(4) d' pre1]
  have IH: "marks_effect tid sts err ys ?st1 (foldl f ?st1 ys)" .
  let ?st' = "foldl f ?st1 ys"
  have inv': "tracker_inv ?st'" and ids': "map task_id (heap ?st') = map task_id (heap st)"
    using IH S(2) by (simp_all add: marks_effect_def)
  have main: "(\<forall>x\<in>set (y # ys). task_id (heap st ! k) = tid x \<longrightarrow>
             heap ?st' ! k = marked (sts x) (err x) (heap st ! k)
             \<and> status_history ?st' k = status_history st k @ [sts x])
        \<and> (task_id (heap st ! k) \<notin> tid ` set (y # ys) \<longrightarrow>
             heap ?st' ! k = heap st ! k \<and> status_history ?st' k = status_history st k)"
    if k: "k < length (heap st)" for k
  proof -
    from k S(3) have k1: "k < length (heap ?st1)" by simp
    from IH k1 have
      a: "\<forall>x\<in>set ys. task_id (heap ?st1 ! k) = tid x \<longrightarrow>
             heap ?st' ! k = marked (sts x) (err x) (heap ?st1 ! k)
             \<and> status_history ?st' k = status_history ?st1 k @ [sts x]"
      and b: "task_id (heap ?st1 ! k) \<notin> tid ` set ys \<longrightarrow>
             heap ?st' ! k = heap ?st1 ! k \<and> status_history ?st' k = status_history ?st1 k"
      unfolding marks_effect_def by blast+
    show ?thesis
    proof (cases "task_id (heap st ! k) = tid y")
      case True
      then have notin: "task_id (heap ?st1 ! k) \<notin> tid ` set ys"
        using ynot id1[OF k] by simp
      have st: "status (heap st ! k) \<noteq> sts y"
        using Cons.prems(5) k True by simp
      have "heap ?st' ! k = marked (sts y) (err y) (heap st ! k)"
        using b notin S(5)[OF k] True by simp
      moreover have "status_history ?st' k = status_history st k @ [sts y]"
        using b notin S(6)[OF k] True st by simp
      moreover have "x = y" if "x \<in> set (y # ys)" "task_id (heap st ! k) = tid x" for x
        using that True ynot by force
      ultimately show ?thesis using True by auto
    next
      case False
      then have h1: "heap ?st1 ! k = heap st ! k" and s1: "status_history ?st1 k = status_history st k"
        using S(5)[OF k] S(6)[OF k] by simp_all
      show ?thesis using a b h1 s1 False by auto
    qed
  qed
  show ?case
    unfolding marks_effect_def using inv' ids' main by simp
qed

section \<open>Task identifiers are unique\<close>

lemma digit_char_inj: "a < 10 \<Longrightarrow> b < 10 \<Longrightarrow> digit_char a = digit_char b \<Longrightarrow> a = b"
proof -
  assume a: "a < 10" and b: "b < 10" and e: "digit_char a = digit_char b"
  from e have "(of_char (digit_char a) :: nat) = of_char (digit_char b)" by simp
  with a b show "a = b" by (simp add: digit_char_def)
qed

lemma digit_char_not_dash: "d < 10 \<Longrightarrow> digit_char d \<noteq> CHR ''-''"
proof
  assume d: "d < 10" and e: "digit_char d = CHR ''-''"
  from e have "(of_char (digit_char d) :: nat) = of_char CHR ''-''" by simp
  with d show False by (simp add: digit_char_def)
qed

lemma string_of_nat_nonempty: "string_of_nat n \<noteq> []"
  by (subst string_of_nat.simps) simp

lemma string_of_nat_no_dash: "CHR ''-'' \<notin> set (string_of_nat n)"
proof (induction n rule: string_of_nat.induct)
  case (1 n)
  show ?case
  proof (cases "n < 10")
    case True
    then show ?thesis
      using digit_char_not_dash[of n] by (subst string_of_nat.simps) auto
  next
    case False
    with 1 have "CHR ''-'' \<notin> set (string_of_nat (n div 10))" by simp
    moreover have "digit_char (n mod 10) \<noteq> CHR ''-''" by (rule digit_char_not_dash) simp
    ultimately show ?thesis using False by (subst string_of_nat.simps) auto
  qed
qed

lemma string_of_nat_inj: "string_of_nat n = string_of_nat m \<Longrightarrow> n = m"
proof (induction n arbitrary: m rule: string_of_nat.induct)
  case (1 n)
  show ?case
  proof (cases "n < 10")
    case n: True
    show ?thesis
    proof (cases "m < 10")
      case True
      with n 1(2) show ?thesis
        using digit_char_inj[of n m]
        by (subst (asm) string_of_nat.simps, subst (asm) (2) string_of_nat.simps) simp
    next
      case False
      with n 1(2) have "[digit_char n] = string_of_nat (m div 10) @ [digit_char (m mod 10)]"
        by (subst (asm) string_of_nat.simps, subst (asm) (2) string_of_nat.simps) simp
      with string_of_nat_nonempty[of "m div 10"] show ?thesis
        by (cases "string_of_nat (m div 10)") auto
    qed
  next
    case n: False
    show ?thesis
    proof (cases "m < 10")
      case True
      with n 1(2) have "string_of_nat (n div 10) @ [digit_char (n mod 10)] = [digit_char m]"
        by (subst (asm) string_of_nat.simps, subst (asm) (2) string_of_nat.simps) simp
      with string_of_nat_nonempty[of "n div 10"] show ?thesis
        by (cases "string_of_nat (n div 10)") auto
    next
      case False
      with n 1(2) have "string_of_nat (n div 10) @ [digit_char (n mod 10)]
                         = string_of_nat (m div 10) @ [digit_char (m mod 10)]"
        by (subst (asm) string_of_nat.simps, subst (asm) (2) string_of_nat.simps) simp
      then have a: "string_of_nat (n div 10) = string_of_nat (m div 10)"
        and b: "digit_char (n mod 10) = digit_char (m mod 10)"
        by simp_all
      from 1(1)[OF n a] have "n div 10 = m div 10" .
      moreover from b have "n mod 10 = m mod 10" by (intro digit_char_inj) simp_all
      ultimately show ?thesis by (metis div_mult_mod_eq)
    qed
  qed
qed

lemma provider_name_inj: "provider_name p = provider_name q \<Longrightarrow> p = q"
  by (cases p; cases q; simp add: provider_name_def)

lemma taskId_inj: "taskId i p = taskId j q \<Longrightarrow> i = j \<and> p = q"
proof -
  assume "taskId i p = taskId j q"
  then have e: "string_of_nat i @ CHR ''-'' # provider_name p
              = string_of_nat j @ CHR ''-'' # provider_name q"
    by (simp add: taskId_def)
  then have "takeWhile (\<lambda>c. c \<noteq> CHR ''-'') (string_of_nat i @ CHR ''-'' # provider_name p)
           = takeWhile (\<lambda>c. c \<noteq> CHR ''-'') (string_of_nat j @ CHR ''-'' # provider_name q)"
    by simp
  moreover have "takeWhile (\<lambda>c. c \<noteq> CHR ''-'') (string_of_nat n @ CHR ''-'' # r) = string_of_nat n"
    for n r
    using string_of_nat_no_dash[of n] by (auto simp: takeWhile_tail)
  ultimately have "string_of_nat i = string_of_nat j"
    by simp
  with e show ?thesis
    by (auto dest: string_of_nat_inj provider_name_inj)
qed

section \<open>One prompt\<close>

lemma start_mapper_step:
  "heap (start_mapper env cfg cl i pt st p) = heap (updateTaskStatus (taskId i p) in_progress None st)
   \<and> tasks (start_mapper env cfg cl i pt st p) = tasks (updateTaskStatus (taskId i p) in_progress None st)
   \<and> emitted (start_mapper env cfg cl i pt st p)
       = emitted (updateTaskStatus (taskId i p) in_progress None st)"
  by (simp add: start_mapper_def Let_def split: sum.splits)

lemma settle_mapper_step:
  assumes "dispatch env cfg cl i pt p = Inr outcome"
  shows "settle_mapper env cfg cl i pt st p =
           updateTaskStatus (taskId i p) (fst (settled_mark env cfg cl i pt p))
             (snd (settled_mark env cfg cl i pt p)) st"
  using assms by (simp add: settle_mapper_def settled_mark_def split: prod.splits)

lemma mapper_result_terminal: "terminal (fst (fst (mapper_result p outcome)))"
  by (simp add: mapper_result_def terminal_def Let_def split: sum.splits)

lemma settled_mark_terminal:
  "dispatch env cfg cl i pt p = Inr outcome \<Longrightarrow> terminal (fst (settled_mark env cfg cl i pt p))"
  by (simp add: settled_mark_def mapper_result_terminal)

lemma no_rejection_iff:
  "[e. Inl e \<leftarrow> map d ps] = [] \<longleftrightarrow> (\<forall>p\<in>set ps. \<exists>outcome. d p = Inr outcome)"
  by (induction ps) (auto split: sum.splits)

lemma collect_responses:
  "\<forall>p\<in>set ps. \<exists>outcome. d p = Inr outcome \<Longrightarrow>
     [g p outcome. p \<leftarrow> ps, Inr outcome \<leftarrow> [d p]] = map (\<lambda>p. g p (projr (d p))) ps"
  by (induction ps) auto

lemma run_prompt_ok:
  assumes inv: "tracker_inv st" and dist: "distinct (map task_id (heap st))"
    and dp: "distinct (providers cfg)"
    and ok: "\<forall>p\<in>set (providers cfg). \<exists>outcome. dispatch env cfg cl i pt p = Inr outcome"
    and pre: "\<forall>p\<in>set (providers cfg). \<forall>k<length (heap st).
                task_id (heap st ! k) = taskId i p \<longrightarrow> status (heap st ! k) = pending"
  shows "fst (run_prompt env cfg cl i pt st) =
           Inr \<lparr>prompt = pt,
                providerResponses = map (settled_response env cfg cl i pt) (providers cfg)\<rparr>"
    and "prompt_effect env cfg cl i pt st (snd (run_prompt env cfg cl i pt st))"
proof -
  let ?ps = "providers cfg"
  let ?d = "dispatch env cfg cl i pt"
  let ?st1 = "foldl (start_mapper env cfg cl i pt) st ?ps"
  let ?order = "sort_key (finish env i) ?ps"
  let ?st2 = "foldl (settle_mapper env cfg cl i pt) ?st1 ?order"
  from ok have none: "[e. Inl e \<leftarrow> map ?d ?ps] = []"
    by (simp only: no_rejection_iff)
  have resp: "[snd (mapper_result p outcome). p \<leftarrow> ?ps, Inr outcome \<leftarrow> [?d p]]
                = map (settled_response env cfg cl i pt) ?ps"
    using collect_responses[OF ok, of "\<lambda>p outcome. snd (mapper_result p outcome)"] ok
    by (auto simp: settled_response_def)
  from none resp show "fst (run_prompt env cfg cl i pt st) =
           Inr \<lparr>prompt = pt,
                providerResponses = map (settled_response env cfg cl i pt) (providers cfg)\<rparr>"
    by (simp only: run_prompt_def Let_def list.case fst_conv)
  from none have st2: "snd (run_prompt env cfg cl i pt st) = ?st2"
    by (simp only: run_prompt_def Let_def list.case snd_conv)
  have inj: "distinct (map (taskId i) xs)" if "distinct xs" for xs :: "Provider list"
    using that by (simp add: distinct_map inj_on_def) (blast dest: taskId_inj)
  have pre1: "\<forall>p\<in>set ?ps. \<forall>k<length (heap st).
               task_id (heap st ! k) = taskId i p \<longrightarrow> status (heap st ! k) \<noteq> in_progress"
    using pre by simp
  have E1: "marks_effect (taskId i) (\<lambda>_. in_progress) (\<lambda>_. None) ?ps st ?st1"
    by (rule fold_marks[OF _ inv dist inj[OF dp] pre1]) (simp add: start_mapper_step)
  then have inv1: "tracker_inv ?st1" and ids1: "map task_id (heap ?st1) = map task_id (heap st)"
    by (simp_all add: marks_effect_def)
  from ids1 have len1: "length (heap ?st1) = length (heap st)" by (metis length_map)
  from ids1 dist have dist1: "distinct (map task_id (heap ?st1))" by simp
  have id1: "task_id (heap ?st1 ! k) = task_id (heap st ! k)" if "k < length (heap st)" for k
    using ids1 that len1 by (metis nth_map)
  have so: "set ?order = set ?ps" and dso: "distinct ?order"
    using dp by simp_all
  have pre2: "\<forall>p\<in>set ?order. \<forall>k<length (heap ?st1).
               task_id (heap ?st1 ! k) = taskId i p
                 \<longrightarrow> status (heap ?st1 ! k) \<noteq> fst (settled_mark env cfg cl i pt p)"
  proof (intro ballI allI impI)
    fix p k assume p: "p \<in> set ?order" and k: "k < length (heap ?st1)"
      and e: "task_id (heap ?st1 ! k) = taskId i p"
    from p so have p': "p \<in> set ?ps" by simp
    from k len1 have k': "k < length (heap st)" by simp
    from e id1[OF k'] have e': "task_id (heap st ! k) = taskId i p" by simp
    from E1 k' p' e' have "heap ?st1 ! k = marked in_progress None (heap st ! k)"
      unfolding marks_effect_def by blast
    then have "status (heap ?st1 ! k) = in_progress" by simp
    moreover from ok p' obtain outcome where "?d p = Inr outcome" by blast
    from settled_mark_terminal[OF this] have "fst (settled_mark env cfg cl i pt p) \<noteq> in_progress"
      by (auto simp: terminal_def)
    ultimately show "status (heap ?st1 ! k) \<noteq> fst (settled_mark env cfg cl i pt p)" by simp
  qed
  have steps2: "\<forall>p\<in>set ?order. \<forall>s.
       heap (settle_mapper env cfg cl i pt s p)
         = heap (updateTaskStatus (taskId i p) (fst (settled_mark env cfg cl i pt p))
                   (snd (settled_mark env cfg cl i pt p)) s)
     \<and> tasks (settle_mapper env cfg cl i pt s p)
         = tasks (updateTaskStatus (taskId i p) (fst (settled_mark env cfg cl i pt p))
                   (snd (settled_mark env cfg cl i pt p)) s)
     \<and> emitted (settle_mapper env cfg cl i pt s p)
         = emitted (updateTaskStatus (taskId i p) (fst (settled_mark env cfg cl i pt p))
                   (snd (settled_mark env cfg cl i pt p)) s)"
  proof (intro ballI allI)
    fix p s assume "p \<in> set ?order"
    with so ok obtain outcome where "?d p = Inr outcome" by auto
    from settle_mapper_step[OF this] show "heap (settle_mapper env cfg cl i pt s p)
         = heap (updateTaskStatus (taskId i p) (fst (settled_mark env cfg cl i pt p))
                   (snd (settled_mark env cfg cl i pt p)) s)
     \<and> tasks (settle_mapper env cfg cl i pt s p)
         = tasks (updateTaskStatus (taskId i p) (fst (settled_mark env cfg cl i pt p))
                   (snd (settled_mark env cfg cl i pt p)) s)
     \<and> emitted (settle_mapper env cfg cl i pt s p)
         = emitted (updateTaskStatus (taskId i p) (fst (settled_mark env cfg cl i pt p))
                   (snd (settled_mark env cfg cl i pt p)) s)"
      by simp
  qed
  have E2: "marks_effect (taskId i) (\<lambda>p. fst (settled_mark env cfg cl i pt p))
              (\<lambda>p. snd (settled_mark env cfg cl i pt p)) ?order ?st1 ?st2"
    by (rule fold_marks[OF steps2 inv1 dist1 inj[OF dso] pre2])
  have "prompt_effect env cfg cl i pt st ?st2"
    unfolding prompt_effect_def
  proof (intro conjI allI impI ballI)
    show "tracker_inv ?st2" using E2 by (simp add: marks_effect_def)
    show "map task_id (heap ?st2) = map task_id (heap st)"
      using E2 ids1 by (simp add: marks_effect_def)
  next
    fix k p assume k: "k < length (heap st)" and p: "p \<in> set ?ps"
      and e: "task_id (heap st ! k) = taskId i p"
    from k len1 have k1: "k < length (heap ?st1)" by simp
    from E1 k p e have a: "heap ?st1 ! k = marked in_progress None (heap st ! k)"
      and b: "status_history ?st1 k = status_history st k @ [in_progress]"
      unfolding marks_effect_def by blast+
    from p so have p2: "p \<in> set ?order" by simp
    from e id1[OF k] have e1: "task_id (heap ?st1 ! k) = taskId i p" by simp
    from E2 k1 p2 e1 have
      c: "heap ?st2 ! k = marked (fst (settled_mark env cfg cl i pt p))
                           (snd (settled_mark env cfg cl i pt p)) (heap ?st1 ! k)"
      and d: "status_history ?st2 k
                = status_history ?st1 k @ [fst (settled_mark env cfg cl i pt p)]"
      unfolding marks_effect_def by blast+
    from a c show "heap ?st2 ! k = marked (fst (settled_mark env cfg cl i pt p))
                           (snd (settled_mark env cfg cl i pt p))
                           (marked in_progress None (heap st ! k))" by simp
    from b d show "status_history ?st2 k =
                 status_history st k @ [in_progress, fst (settled_mark env cfg cl i pt p)]"
      by simp
  next
    fix k assume k: "k < length (heap st)"
      and n: "task_id (heap st ! k) \<notin> taskId i ` set ?ps"
    from k len1 have k1: "k < length (heap ?st1)" by simp
    from E1 k n have a: "heap ?st1 ! k = heap st ! k"
      and b: "status_history ?st1 k = status_history st k"
      unfolding marks_effect_def by blast+
    from n id1[OF k] so have n1: "task_id (heap ?st1 ! k) \<notin> taskId i ` set ?order" by simp
    from E2 k1 n1 have c: "heap ?st2 ! k = heap ?st1 ! k"
      and d: "status_history ?st2 k = status_history ?st1 k"
      unfolding marks_effect_def by blast+
    from a c show "heap ?st2 ! k = heap st ! k" by simp
    from b d show "status_history ?st2 k = status_history st k" by simp
  qed
  with st2 show "prompt_effect env cfg cl i pt st (snd (run_prompt env cfg cl i pt st))"
    by simp
qed

section \<open>The loop over prompts\<close>

lemma dispatch_Inr_iff:
  "(\<exists>outcome. dispatch env cfg cl i pt p = Inr outcome) \<longleftrightarrow> guard_ok cfg cl p"
  by (cases p) (auto simp: dispatch_def guard_ok_def)

lemma dispatch_Inl_iff:
  "(\<exists>e. dispatch env cfg cl i pt p = Inl e) \<longleftrightarrow> \<not> guard_ok cfg cl p"
  by (cases p) (auto simp: dispatch_def guard_ok_def)

lemma adapter_provider:
  "provider (runGeminiAnalysisForPrompt n ps pt cfg c m) = gemini"
  "provider (runOpenAIAnalysisForPrompt n ps pt cfg c m) = openai"
  "provider (runPerplexityAnalysisForPrompt n ps pt cfg c m) = perplexity"
  "provider (runCopilotAnalysisForPrompt n ps pt cfg cc m) = copilot"
  by (auto simp: runGeminiAnalysisForPrompt_def runOpenAIAnalysisForPrompt_def
      runPerplexityAnalysisForPrompt_def runCopilotAnalysisForPrompt_def
      bind_exn_def Let_def split: sum.splits option.splits)

lemma dispatch_Inr:
  "dispatch env cfg cl i pt p = Inr outcome \<Longrightarrow> \<exists>r. outcome = Inr r \<and> provider r = p"
  by (cases p) (auto simp: dispatch_def adapter_provider split: if_splits)

lemma run_prompts_ok:
  assumes "tracker_inv st" "distinct (map task_id (heap st))"
    and dp: "distinct (providers cfg)"
    and ok: "\<forall>p\<in>set (providers cfg). guard_ok cfg cl p"
    and "\<forall>j\<ge>i. \<forall>p\<in>set (providers cfg). \<forall>k<length (heap st).
           task_id (heap st ! k) = taskId j p \<longrightarrow> status (heap st ! k) = pending"
  shows "fst (run_prompts env cfg cl i pts acc st) =
           Inr (acc @ map (\<lambda>(j, pt). \<lparr>prompt = pt,
                            providerResponses = map (settled_response env cfg cl j pt) (providers cfg)\<rparr>)
                          (enumerate i pts))
         \<and> run_effect env cfg cl i pts st (snd (run_prompts env cfg cl i pts acc st))"
  using assms(1,2,5)
proof (induction pts arbitrary: i acc st)
  case Nil
  then show ?case by (simp add: run_effect_def)
next
  case (Cons pt pts)
  let ?rp = "run_prompt env cfg cl i pt st"
  let ?st1 = "snd ?rp"
  let ?r = "\<lparr>prompt = pt, providerResponses = map (settled_response env cfg cl i pt) (providers cfg)\<rparr>"
  have okd: "\<forall>p\<in>set (providers cfg). \<exists>outcome. dispatch env cfg cl i pt p = Inr outcome"
    using ok by (simp add: dispatch_Inr_iff)
  have pre0: "\<forall>p\<in>set (providers cfg). \<forall>k<length (heap st).
                task_id (heap st ! k) = taskId i p \<longrightarrow> status (heap st ! k) = pending"
    using Cons.prems(3) by auto
  note RP = run_prompt_ok[OF Cons.prems(1,2) dp okd pre0]
  from RP(2) have inv1: "tracker_inv ?st1"
    and ids1: "map task_id (heap ?st1) = map task_id (heap st)"
    by (simp_all add: prompt_effect_def)
  from ids1 have len1: "length (heap ?st1) = length (heap st)" by (metis length_map)
  from ids1 Cons.prems(2) have dist1: "distinct (map task_id (heap ?st1))" by simp
  have id1: "task_id (heap ?st1 ! k) = task_id (heap st ! k)" if "k < length (heap st)" for k
    using ids1 that len1 by (metis nth_map)
  have other: "heap ?st1 ! k = heap st ! k \<and> status_history ?st1 k = status_history st k"
    if "k < length (heap st)" "task_id (heap st ! k) \<notin> taskId i ` set (providers cfg)" for k
    using RP(2) that unfolding prompt_effect_def by blast
  have pre1: "\<forall>j\<ge>Suc i. \<forall>p\<in>set (providers cfg). \<forall>k<length (heap ?st1).
           task_id (heap ?st1 ! k) = taskId j p \<longrightarrow> status (heap ?st1 ! k) = pending"
  proof (intro allI impI ballI)
    fix j p k assume j: "Suc i \<le> j" and p: "p \<in> set (providers cfg)"
      and k: "k < length (heap ?st1)" and e: "task_id (heap ?st1 ! k) = taskId j p"
    from k len1 have k': "k < length (heap st)" by simp
    from e id1[OF k'] have e': "task_id (heap st ! k) = taskId j p" by simp
    with j have "task_id (heap st ! k) \<notin> taskId i ` set (providers cfg)"
      by (auto dest: taskId_inj)
    from j have "i \<le> j" by simp
    with Cons.prems(3) p k' e' have "status (heap st ! k) = pending" by blast
    with other[OF k' \<open>task_id (heap st ! k) \<notin> taskId i ` set (providers cfg)\<close>]
    show "status (heap ?st1 ! k) = pending" by simp
  qed
  from Cons.IH[OF inv1 dist1 pre1, of "acc @ [?r]"]
  have IHr: "fst (run_prompts env cfg cl (Suc i) pts (acc @ [?r]) ?st1) =
           Inr ((acc @ [?r]) @ map (\<lambda>(j, pt). \<lparr>prompt = pt,
                            providerResponses = map (settled_response env cfg cl j pt) (providers cfg)\<rparr>)
                          (enumerate (Suc i) pts))"
    and IHe: "run_effect env cfg cl (Suc i) pts ?st1
                (snd (run_prompts env cfg cl (Suc i) pts (acc @ [?r]) ?st1))"
    by simp_all
  have unf: "run_prompts env cfg cl i (pt # pts) acc st
               = run_prompts env cfg cl (Suc i) pts (acc @ [?r]) ?st1"
    using RP(1) by (cases ?rp) simp
  let ?st' = "snd (run_prompts env cfg cl (Suc i) pts (acc @ [?r]) ?st1)"
  have eff: "run_effect env cfg cl i (pt # pts) st ?st'"
    unfolding run_effect_def
  proof (intro conjI allI impI ballI)
    show "tracker_inv ?st'" using IHe by (simp add: run_effect_def)
    show "map task_id (heap ?st') = map task_id (heap st)"
      using IHe ids1 by (simp add: run_effect_def)
  next
    fix k j p assume k: "k < length (heap st)" and j: "j < length (pt # pts)"
      and p: "p \<in> set (providers cfg)" and e: "task_id (heap st ! k) = taskId (i + j) p"
    from k len1 have k1: "k < length (heap ?st1)" by simp
    have goal: "heap ?st' ! k = marked (fst (settled_mark env cfg cl (i + j) ((pt # pts) ! j) p))
                              (snd (settled_mark env cfg cl (i + j) ((pt # pts) ! j) p))
                              (marked in_progress None (heap st ! k))
             \<and> status_history ?st' k =
                 status_history st k
                   @ [in_progress, fst (settled_mark env cfg cl (i + j) ((pt # pts) ! j) p)]"
    proof (cases j)
      case 0
      with e have e0: "task_id (heap st ! k) = taskId i p" by simp
      from RP(2) k p e0 have
        a: "heap ?st1 ! k = marked (fst (settled_mark env cfg cl i pt p))
                              (snd (settled_mark env cfg cl i pt p))
                              (marked in_progress None (heap st ! k))
            \<and> status_history ?st1 k =
                 status_history st k @ [in_progress, fst (settled_mark env cfg cl i pt p)]"
        unfolding prompt_effect_def by blast
      have "\<forall>j'<length pts. \<forall>q\<in>set (providers cfg).
              task_id (heap ?st1 ! k) \<noteq> taskId (Suc i + j') q"
        using id1[OF k] e0 by (auto dest: taskId_inj)
      with IHe k1 have "heap ?st' ! k = heap ?st1 ! k \<and> status_history ?st' k = status_history ?st1 k"
        unfolding run_effect_def by blast
      with a 0 show ?thesis by simp
    next
      case (Suc j')
      with j have j': "j' < length pts" by simp
      from e Suc have e1: "task_id (heap st ! k) = taskId (Suc i + j') p" by simp
      then have "task_id (heap st ! k) \<notin> taskId i ` set (providers cfg)"
        by (auto dest: taskId_inj)
      from other[OF k this] have h1: "heap ?st1 ! k = heap st ! k"
        and s1: "status_history ?st1 k = status_history st k" by simp_all
      from e1 id1[OF k] have "task_id (heap ?st1 ! k) = taskId (Suc i + j') p" by simp
      with IHe k1 j' p have
        "heap ?st' ! k = marked (fst (settled_mark env cfg cl (Suc i + j') (pts ! j') p))
                              (snd (settled_mark env cfg cl (Suc i + j') (pts ! j') p))
                              (marked in_progress None (heap ?st1 ! k))
             \<and> status_history ?st' k =
                 status_history ?st1 k
                   @ [in_progress, fst (settled_mark env cfg cl (Suc i + j') (pts ! j') p)]"
        unfolding run_effect_def by blast
      with h1 s1 Suc show ?thesis by simp
    qed
    from goal show "heap ?st' ! k = marked (fst (settled_mark env cfg cl (i + j) ((pt # pts) ! j) p))
                              (snd (settled_mark env cfg cl (i + j) ((pt # pts) ! j) p))
                              (marked in_progress None (heap st ! k))" by simp
    from goal show "status_history ?st' k =
                 status_history st k
                   @ [in_progress, fst (settled_mark env cfg cl (i + j) ((pt # pts) ! j) p)]"
      by simp
  next
    fix k assume k: "k < length (heap st)"
      and n: "\<forall>j<length (pt # pts). \<forall>p\<in>set (providers cfg). task_id (heap st ! k) \<noteq> taskId (i + j) p"
    from k len1 have k1: "k < length (heap ?st1)" by simp
    from n have "task_id (heap st ! k) \<notin> taskId i ` set (providers cfg)" by force
    from other[OF k this] have h1: "heap ?st1 ! k = heap st ! k"
      and s1: "status_history ?st1 k = status_history st k" by simp_all
    have "\<forall>j'<length pts. \<forall>q\<in>set (providers cfg).
              task_id (heap ?st1 ! k) \<noteq> taskId (Suc i + j') q"
    proof (intro allI impI ballI)
      fix j' q assume "j' < length pts" "q \<in> set (providers cfg)"
      with n[rule_format, of "Suc j'" q] id1[OF k]
      show "task_id (heap ?st1 ! k) \<noteq> taskId (Suc i + j') q" by simp
    qed
    with IHe k1 have r: "heap ?st' ! k = heap ?st1 ! k \<and> status_history ?st' k = status_history ?st1 k"
      unfolding run_effect_def by blast
    from r h1 show "heap ?st' ! k = heap st ! k" by simp
    from r s1 show "status_history ?st' k = status_history st k" by simp
  qed
  from IHr eff unf show ?case
    by simp
qed

section \<open>The initial task list\<close>

lemma nested_length:
  "length (concat (map (\<lambda>(i, x). map (g i x) ys) (enumerate n xs))) = length xs * length ys"
  by (induction xs arbitrary: n) auto

lemma nested_nth:
  "i < length xs \<Longrightarrow> j < length ys \<Longrightarrow>
     concat (map (\<lambda>(i, x). map (g i x) ys) (enumerate n xs)) ! (i * length ys + j)
       = g (n + i) (xs ! i) (ys ! j)"
proof (induction xs arbitrary: n i)
  case Nil
  then show ?case by simp
next
  case (Cons x xs)
  show ?case
  proof (cases i)
    case 0
    with Cons.prems show ?thesis by (simp add: nth_append)
  next
    case (Suc i')
    with Cons.prems have "i' < length xs" by simp
    from Cons.IH[OF this Cons.prems(2), of "Suc n"] Suc show ?thesis
      by (simp add: nth_append)
  qed
qed

lemma initial_length:
  "length (initial_tasks cfg) = length (prompts cfg) * length (providers cfg)"
  by (simp add: initial_tasks_def nested_length)

lemma initial_nth:
  "i < length (prompts cfg) \<Longrightarrow> j < length (providers cfg) \<Longrightarrow>
     initial_tasks cfg ! (i * length (providers cfg) + j)
       = initial_task cfg i (prompts cfg ! i) (providers cfg ! j)"
  using nested_nth[of i "prompts cfg" j "providers cfg" "initial_task cfg" 0]
  by (simp add: initial_tasks_def)

lemma index_split:
  fixes k P N :: nat
  assumes "k < P * N"
  shows "k div N < P" "k mod N < N" "k = (k div N) * N + k mod N"
proof -
  from assms have N: "0 < N" by (cases N) auto
  then show "k mod N < N" by simp
  from assms N show "k div N < P" by (simp add: less_mult_imp_div_less)
  show "k = (k div N) * N + k mod N" by simp
qed

lemma initial_task_fields [simp]:
  "task_id (initial_task cfg i pt p) = taskId i p"
  "status (initial_task cfg i pt p) = pending"
  "task_error (initial_task cfg i pt p) = None"
  by (simp_all add: initial_task_def Let_def)

lemma initial_by_index:
  assumes "k < length (initial_tasks cfg)"
  shows "initial_tasks cfg ! k =
           initial_task cfg (k div length (providers cfg))
             (prompts cfg ! (k div length (providers cfg)))
             (providers cfg ! (k mod length (providers cfg)))"
proof -
  let ?N = "length (providers cfg)"
  from assms have k: "k < length (prompts cfg) * ?N" by (simp add: initial_length)
  from initial_nth[OF index_split(1,2)[OF k]] index_split(3)[OF k] show ?thesis by simp
qed

lemma initial_distinct:
  assumes "distinct (providers cfg)"
  shows "distinct (map task_id (initial_tasks cfg))"
proof -
  let ?N = "length (providers cfg)"
  {
    fix a b assume a: "a < length (initial_tasks cfg)" and b: "b < length (initial_tasks cfg)"
      and e: "task_id (initial_tasks cfg ! a) = task_id (initial_tasks cfg ! b)"
    from a b have ka: "a < length (prompts cfg) * ?N" and kb: "b < length (prompts cfg) * ?N"
      by (simp_all add: initial_length)
    from e initial_by_index[OF a] initial_by_index[OF b]
    have "taskId (a div ?N) (providers cfg ! (a mod ?N)) = taskId (b div ?N) (providers cfg ! (b mod ?N))"
      by simp
    from taskId_inj[OF this] have d: "a div ?N = b div ?N"
      and p: "providers cfg ! (a mod ?N) = providers cfg ! (b mod ?N)" by simp_all
    from p assms index_split(2)[OF ka] index_split(2)[OF kb] have "a mod ?N = b mod ?N"
      by (simp add: nth_eq_iff_index_eq)
    with d index_split(3)[OF ka] index_split(3)[OF kb] have "a = b" by simp
  }
  then show ?thesis
    by (auto simp: distinct_conv_nth)
qed

lemma runAnalysis_unfold:
  "initializeClients cfg = Inr cl \<Longrightarrow>
     runAnalysis env cfg = run_prompts env cfg cl 0 (prompts cfg) [] (initial_state cfg)"
  by (simp add: runAnalysis_def initial_state_def Let_def)

lemma initial_inv: "tracker_inv (initial_state cfg)"
  by (simp add: tracker_inv_def initial_state_def)

lemma initial_history:
  assumes "k < length (initial_tasks cfg)"
  shows "status_history (initial_state cfg) k = [pending]"
proof -
  from assms have "observed ([0..<length (initial_tasks cfg)], initial_tasks cfg) ! k
                    = initial_tasks cfg ! k"
    by (simp add: observed_def deref_def)
  with initial_by_index[OF assms] show ?thesis
    by (simp add: status_history_def initial_state_def)
qed

section \<open>The whole run\<close>

text \<open>The whole run, when every guard passes.\<close>

lemma runAnalysis_ok:
  fixes env :: Env and cfg :: AppConfig and cl :: LlmClients and k :: nat
  assumes dp: "distinct (providers cfg)"
    and cl: "initializeClients cfg = Inr cl"
    and ok: "\<forall>p\<in>set (providers cfg). guard_ok cfg cl p"
    and k: "k < length (prompts cfg) * length (providers cfg)"
  defines "N \<equiv> length (providers cfg)"
  defines "st' \<equiv> snd (runAnalysis env cfg)"
  defines "mark \<equiv> settled_mark env cfg cl (k div N) (prompts cfg ! (k div N)) (providers cfg ! (k mod N))"
  shows "tracker_inv st'"
    and "length (heap st') = length (prompts cfg) * length (providers cfg)"
    and "heap st' ! k = marked (fst mark) (snd mark)
           (marked in_progress None
              (initial_task cfg (k div N) (prompts cfg ! (k div N)) (providers cfg ! (k mod N))))"
    and "status_history st' k = [pending, in_progress, fst mark]"
proof -
  let ?st0 = "initial_state cfg"
  have h0: "heap ?st0 = initial_tasks cfg" by (simp add: initial_state_def)
  have dist0: "distinct (map task_id (heap ?st0))"
    using initial_distinct[OF dp] h0 by simp
  have pre0: "\<forall>j\<ge>0. \<forall>p\<in>set (providers cfg). \<forall>k<length (heap ?st0).
           task_id (heap ?st0 ! k) = taskId j p \<longrightarrow> status (heap ?st0 ! k) = pending"
    using initial_by_index h0 by simp
  from run_prompts_ok[OF initial_inv dist0 dp ok pre0, of env "prompts cfg" "[]"]
  have eff: "run_effect env cfg cl 0 (prompts cfg) ?st0 st'"
    by (simp add: st'_def runAnalysis_unfold[OF cl])
  then show "tracker_inv st'" by (simp add: run_effect_def)
  from eff have "map task_id (heap st') = map task_id (heap ?st0)" by (simp add: run_effect_def)
  then have "length (heap st') = length (heap ?st0)" by (metis length_map)
  then show "length (heap st') = length (prompts cfg) * length (providers cfg)"
    by (simp add: h0 initial_length)
  from k have k0: "k < length (heap ?st0)" by (simp add: h0 initial_length)
  from k0 have kk: "k < length (initial_tasks cfg)" by (simp add: h0)
  note ix = index_split[OF k, folded N_def]
  have idk: "task_id (heap ?st0 ! k) = taskId (0 + k div N) (providers cfg ! (k mod N))"
    using initial_by_index[OF kk] by (simp add: h0 N_def)
  have pin: "providers cfg ! (k mod N) \<in> set (providers cfg)"
    using ix(2) by (simp add: N_def)
  from eff k0 ix(1) pin idk
  have "heap st' ! k = marked (fst mark) (snd mark) (marked in_progress None (heap ?st0 ! k))
        \<and> status_history st' k = status_history ?st0 k @ [in_progress, fst mark]"
    unfolding run_effect_def mark_def by (metis add_0)
  with initial_by_index[OF kk] initial_history[OF kk]
  show "heap st' ! k = marked (fst mark) (snd mark)
           (marked in_progress None
              (initial_task cfg (k div N) (prompts cfg ! (k div N)) (providers cfg ! (k mod N))))"
    and "status_history st' k = [pending, in_progress, fst mark]"
    by (simp_all add: h0 N_def)
qed

section \<open>Returned results\<close>

lemma run_prompt_result:
  assumes ok: "\<forall>p\<in>set (providers cfg). guard_ok cfg cl p"
  shows "fst (run_prompt env cfg cl i pt st) =
           Inr \<lparr>prompt = pt,
                providerResponses = map (settled_response env cfg cl i pt) (providers cfg)\<rparr>"
proof -
  let ?ps = "providers cfg"
  let ?d = "dispatch env cfg cl i pt"
  from ok have okd: "\<forall>p\<in>set ?ps. \<exists>outcome. ?d p = Inr outcome"
    by (simp add: dispatch_Inr_iff)
  then have none: "[e. Inl e \<leftarrow> map ?d ?ps] = []"
    by (simp only: no_rejection_iff)
  have resp: "[snd (mapper_result p outcome). p \<leftarrow> ?ps, Inr outcome \<leftarrow> [?d p]]
                = map (settled_response env cfg cl i pt) ?ps"
    using collect_responses[OF okd, of "\<lambda>p outcome. snd (mapper_result p outcome)"] okd
    by (auto simp: settled_response_def)
  from none resp show ?thesis
    by (simp only: run_prompt_def Let_def list.case fst_conv)
qed

lemma run_prompt_rejects:
  assumes "\<not> (\<forall>p\<in>set (providers cfg). guard_ok cfg cl p)"
  shows "\<exists>e. run_prompt env cfg cl i pt st =
           (Inl e, foldl (start_mapper env cfg cl i pt) st (providers cfg))"
proof -
  let ?d = "dispatch env cfg cl i pt"
  from assms have "\<not> (\<forall>p\<in>set (providers cfg). \<exists>outcome. ?d p = Inr outcome)"
    by (simp add: dispatch_Inr_iff)
  then have "[e. Inl e \<leftarrow> map ?d (providers cfg)] \<noteq> []"
    by (simp only: no_rejection_iff not_False_eq_True)
  then obtain e es where "[e. Inl e \<leftarrow> map ?d (providers cfg)] = e # es"
    by (cases "[e. Inl e \<leftarrow> map ?d (providers cfg)]") auto
  then show ?thesis
    by (simp only: run_prompt_def Let_def list.case) blast
qed

lemma run_prompts_result:
  assumes ok: "\<forall>p\<in>set (providers cfg). guard_ok cfg cl p"
  shows "fst (run_prompts env cfg cl i pts acc st) =
           Inr (acc @ map (\<lambda>(j, pt). \<lparr>prompt = pt,
                            providerResponses = map (settled_response env cfg cl j pt) (providers cfg)\<rparr>)
                          (enumerate i pts))"
proof (induction pts arbitrary: i acc st)
  case Nil
  then show ?case by simp
next
  case (Cons pt pts)
  from run_prompt_result[OF ok, of env i pt st] Cons.IH show ?case
    by (cases "run_prompt env cfg cl i pt st") simp
qed

lemma run_prompts_rejects:
  assumes "\<not> (\<forall>p\<in>set (providers cfg). guard_ok cfg cl p)" "pts \<noteq> []"
  shows "\<exists>e. fst (run_prompts env cfg cl i pts acc st) = Inl e"
proof -
  from assms(2) obtain pt rest where pts: "pts = pt # rest" by (cases pts) auto
  from run_prompt_rejects[OF assms(1), of env i pt st] pts show ?thesis by auto
qed

lemma returns_cases:
  assumes "fst (runAnalysis env cfg) = Inr results"
  obtains cl where "initializeClients cfg = Inr cl" "prompts cfg = []" "results = []"
  | cl where "initializeClients cfg = Inr cl" "\<forall>p\<in>set (providers cfg). guard_ok cfg cl p"
      "results = expected_results env cfg cl"
proof (cases "initializeClients cfg")
  case (Inl e)
  with assms show ?thesis by (simp add: runAnalysis_def)
next
  case (Inr cl)
  note U = runAnalysis_unfold[OF Inr, of env]
  show ?thesis
  proof (cases "\<forall>p\<in>set (providers cfg). guard_ok cfg cl p")
    case True
    from run_prompts_result[OF True, of env 0 "prompts cfg" "[]" "initial_state cfg"] assms U
    have "results = expected_results env cfg cl" by (simp add: expected_results_def)
    with that(2)[OF Inr True] show ?thesis .
  next
    case False
    show ?thesis
    proof (cases "prompts cfg = []")
      case True
      with assms U have "results = []" by simp
      with that(1)[OF Inr True] show ?thesis .
    next
      case ne: False
      from run_prompts_rejects[OF False ne, of env 0 "[]" "initial_state cfg"] assms U
      show ?thesis by simp
    qed
  qed
qed

lemma expected_results_length [simp]:
  "length (expected_results env cfg cl) = length (prompts cfg)"
  by (simp add: expected_results_def)

lemma expected_results_nth:
  "i < length (prompts cfg) \<Longrightarrow>
     expected_results env cfg cl ! i =
       \<lparr>prompt = prompts cfg ! i,
        providerResponses = map (settled_response env cfg cl i (prompts cfg ! i)) (providers cfg)\<rparr>"
  by (simp add: expected_results_def nth_enumerate_eq)

lemma expected_results_prompts: "map prompt (expected_results env cfg cl) = prompts cfg"
  by (simp add: expected_results_def list_eq_iff_nth_eq nth_enumerate_eq)

lemma settled_response_provider:
  "guard_ok cfg cl p \<Longrightarrow> provider (settled_response env cfg cl i pt p) = p"
proof -
  assume "guard_ok cfg cl p"
  then obtain outcome where d: "dispatch env cfg cl i pt p = Inr outcome"
    using dispatch_Inr_iff by blast
  from dispatch_Inr[OF d] obtain r where "outcome = Inr r" "provider r = p" by blast
  with d show ?thesis by (simp add: settled_response_def mapper_result_def)
qed

lemma settled_response_finish:
  "settled_response (env\<lparr>finish := f\<rparr>) cfg cl i pt p = settled_response env cfg cl i pt p"
  by (cases p) (simp_all add: settled_response_def dispatch_def)

section \<open>Invariants of every run\<close>

lemma update_base:
  assumes "base_inv first n st"
  shows "base_inv first n (updateTaskStatus tid s e st)"
proof -
  from assms have inv: "tracker_inv st" and ne: "emitted st \<noteq> []"
    by (simp_all add: base_inv_def tracker_inv_def)
  from update_emitted[OF inv, of tid s e] ne
  have "hd (emitted (updateTaskStatus tid s e st)) = hd (emitted st)"
    by (simp split: if_splits)
  with assms update_inv[OF inv, of tid s e] update_frame(3)[OF inv, of tid s e] show ?thesis
    by (simp add: base_inv_def)
qed

lemma base_inv_cong:
  "heap st' = heap st \<Longrightarrow> tasks st' = tasks st \<Longrightarrow> emitted st' = emitted st
     \<Longrightarrow> base_inv first n st' = base_inv first n st"
  by (simp add: base_inv_def tracker_inv_def)

lemma start_base:
  "base_inv first n st \<Longrightarrow> base_inv first n (start_mapper env cfg cl i pt st p)"
  using base_inv_cong[OF start_mapper_step[THEN conjunct1]
      start_mapper_step[THEN conjunct2, THEN conjunct1]
      start_mapper_step[THEN conjunct2, THEN conjunct2], of first n env cfg cl i pt st p]
    update_base[of first n st "taskId i p" in_progress None]
  by simp

lemma settle_base:
  "base_inv first n st \<Longrightarrow> base_inv first n (settle_mapper env cfg cl i pt st p)"
  by (auto simp: settle_mapper_def update_base split: sum.splits prod.splits)

lemma foldl_preserves:
  "(\<And>st x. P st \<Longrightarrow> P (f st x)) \<Longrightarrow> P st \<Longrightarrow> P (foldl f st xs)"
  by (induction xs arbitrary: st) auto

lemma run_prompt_base:
  assumes "base_inv first n st"
  shows "base_inv first n (snd (run_prompt env cfg cl i pt st))"
proof -
  let ?st1 = "foldl (start_mapper env cfg cl i pt) st (providers cfg)"
  have 1: "base_inv first n ?st1"
    by (rule foldl_preserves[where P = "base_inv first n"]) (simp_all add: start_base assms)
  have 2: "base_inv first n (foldl (settle_mapper env cfg cl i pt) ?st1 xs)" for xs
    by (rule foldl_preserves[where P = "base_inv first n"]) (simp_all add: settle_base 1)
  from 1 2 show ?thesis
    by (simp add: run_prompt_def Let_def split: list.splits)
qed

lemma run_prompts_base:
  "base_inv first n st \<Longrightarrow> base_inv first n (snd (run_prompts env cfg cl i pts acc st))"
proof (induction pts arbitrary: i acc st)
  case Nil
  then show ?case by simp
next
  case (Cons pt pts)
  from run_prompt_base[OF Cons.prems, of env cfg cl i pt] Cons.IH show ?case
    by (cases "run_prompt env cfg cl i pt st") (auto split: sum.splits)
qed

lemma runAnalysis_base:
  assumes "initializeClients cfg = Inr cl"
  shows "base_inv ([0..<length (initial_tasks cfg)], initial_tasks cfg)
           (length (prompts cfg) * length (providers cfg)) (snd (runAnalysis env cfg))"
proof -
  have "base_inv ([0..<length (initial_tasks cfg)], initial_tasks cfg)
           (length (prompts cfg) * length (providers cfg)) (initial_state cfg)"
    using initial_inv[of cfg] by (simp add: base_inv_def initial_state_def initial_length)
  from run_prompts_base[OF this] runAnalysis_unfold[OF assms] show ?thesis by simp
qed

lemma runAnalysis_aborted:
  "initializeClients cfg = Inl e \<Longrightarrow>
     runAnalysis env cfg = (Inl e, \<lparr>heap = [], tasks = [], emitted = [], issued = []\<rparr>)"
  by (simp add: runAnalysis_def)

lemma observed_snapshot:
  assumes "tracker_inv st" "snapshot \<in> set (emitted st)"
  shows "observed snapshot = snd snapshot"
proof -
  from assms have "fst snapshot = [0..<length (snd snapshot)]"
    by (auto simp: tracker_inv_def)
  then show ?thesis
    using map_nth[of "snd snapshot"] by (simp add: observed_def deref_def)
qed

lemma update_emits_whole_list:
  "(findIndex (\<lambda>t. task_id t = tid) (deref (heap st) (tasks st)) = None
      \<longrightarrow> updateTaskStatus tid s e st = st)
   \<and> (\<forall>k. findIndex (\<lambda>t. task_id t = tid) (deref (heap st) (tasks st)) = Some k
      \<longrightarrow> emitted (updateTaskStatus tid s e st)
            = emitted st @ [(tasks (updateTaskStatus tid s e st), heap (updateTaskStatus tid s e st))]
          \<and> tasks (updateTaskStatus tid s e st) = tasks st)"
  by (simp add: updateTaskStatus_def Let_def)

section \<open>Runs that return\<close>

lemma settled_pair:
  assumes "guard_ok cfg cl p"
  shows "settled_mark env cfg cl i pt p =
           (if truthy (error (settled_response env cfg cl i pt p))
            then (error_status, error (settled_response env cfg cl i pt p))
            else (completed, None))"
proof -
  from assms obtain outcome where d: "dispatch env cfg cl i pt p = Inr outcome"
    using dispatch_Inr_iff by blast
  from dispatch_Inr[OF d] obtain r where "outcome = Inr r" by blast
  with d show ?thesis
    by (simp add: settled_mark_def settled_response_def mapper_result_def)
qed

lemma nth_tasks:
  "tracker_inv st \<Longrightarrow> k < length (heap st) \<Longrightarrow> tasks st ! k = k"
  by (simp add: tracker_inv_def)

lemma index_join:
  fixes i j N :: nat
  assumes "j < N"
  shows "(i * N + j) div N = i" "(i * N + j) mod N = j"
  using assms by simp_all

lemma returning_run:
  assumes "distinct (providers cfg)"
    and "runAnalysis env cfg = (Inr results, st)"
    and "i < length (prompts cfg)" and "j < length (providers cfg)"
  obtains cl where "initializeClients cfg = Inr cl"
    and "\<forall>p\<in>set (providers cfg). guard_ok cfg cl p"
    and "results = expected_results env cfg cl"
    and "tracker_inv st"
    and "length (heap st) = length (prompts cfg) * length (providers cfg)"
    and "heap st ! (i * length (providers cfg) + j) =
           marked (fst (settled_mark env cfg cl i (prompts cfg ! i) (providers cfg ! j)))
             (snd (settled_mark env cfg cl i (prompts cfg ! i) (providers cfg ! j)))
             (marked in_progress None (initial_task cfg i (prompts cfg ! i) (providers cfg ! j)))"
    and "status_history st (i * length (providers cfg) + j) =
           [pending, in_progress,
            fst (settled_mark env cfg cl i (prompts cfg ! i) (providers cfg ! j))]"
proof -
  from assms(2) have ret: "fst (runAnalysis env cfg) = Inr results"
    and st: "st = snd (runAnalysis env cfg)" by simp_all
  from ret show ?thesis
  proof (cases rule: returns_cases)
    case (1 cl)
    with assms(3) show ?thesis by simp
  next
    case (2 cl)
    let ?N = "length (providers cfg)"
    let ?k = "i * ?N + j"
    have "?k < i * ?N + ?N" using assms(4) by simp
    also have "\<dots> = Suc i * ?N" by simp
    also have "\<dots> \<le> length (prompts cfg) * ?N"
      using assms(3) by (intro mult_le_mono1) simp
    finally have k: "?k < length (prompts cfg) * ?N" .
    note R = runAnalysis_ok[OF assms(1) 2(1,2) k, of env, folded st,
        unfolded index_join[OF assms(4)]]
    from that[OF 2(1,2,3) R] show ?thesis .
  qed
qed

lemma marked_task_error [simp]:
  "task_error (marked s e t) = (if truthy e then e else task_error t)"
  by (simp add: marked_def)

lemma settled_response_cong:
  assumes "net env1 i p = net env2 i p" "json_parse env1 = json_parse env2"
  shows "settled_response env1 cfg cl i pt p = settled_response env2 cfg cl i pt p"
  using assms by (cases p) (simp_all add: settled_response_def dispatch_def)

section \<open>Runs that raise\<close>

lemma initializeClients_Inl_iff:
  "(\<exists>e. initializeClients cfg = Inl e)
     \<longleftrightarrow> gemini \<in> set (providers cfg) \<and> \<not> truthy (gemini_key (apiKeys cfg))"
  by (auto simp: initializeClients_def Let_def split: if_splits)

lemma guard_ok_iff:
  assumes "initializeClients cfg = Inr cl" "p \<in> set (providers cfg)"
  shows "guard_ok cfg cl p \<longleftrightarrow> \<not> lacks_binding cfg p"
proof -
  from assms(1) have g: "\<not> (gemini \<in> set (providers cfg) \<and> \<not> truthy (gemini_key (apiKeys cfg)))"
    using initializeClients_Inl_iff[of cfg] by auto
  from assms(1) have cl:
    "gemini_client cl = (if gemini \<in> set (providers cfg) then gemini_key (apiKeys cfg) else None)"
    "openai_client cl = (if openai \<in> set (providers cfg) \<and> truthy (openai_key (apiKeys cfg))
                         then openai_key (apiKeys cfg) else None)"
    "perplexity_client cl = (if perplexity \<in> set (providers cfg)
                                \<and> truthy (perplexity_key (apiKeys cfg))
                             then perplexity_key (apiKeys cfg) else None)"
    "copilot_client cl = (if copilot \<in> set (providers cfg) \<and> truthy (copilotKey (apiKeys cfg))
                              \<and> truthy (copilotEndpoint (apiKeys cfg))
                          then Some (the (copilotKey (apiKeys cfg)),
                                     the (copilotEndpoint (apiKeys cfg))) else None)"
    by (auto simp: initializeClients_def Let_def split: if_splits)
  show ?thesis
  proof (cases p)
    case gemini
    with assms(2) g cl(1) show ?thesis
      by (auto simp: guard_ok_def lacks_binding_def truthy_def split: option.splits)
  next
    case openai
    with assms(2) cl(2) show ?thesis
      by (auto simp: guard_ok_def lacks_binding_def truthy_def split: option.splits)
  next
    case perplexity
    with assms(2) cl(3) show ?thesis
      by (auto simp: guard_ok_def lacks_binding_def truthy_def split: option.splits)
  next
    case copilot
    with assms(2) cl(4) show ?thesis
      by (auto simp: guard_ok_def lacks_binding_def truthy_def split: option.splits)
  qed
qed

lemma run_raises_iff:
  assumes "prompts cfg \<noteq> []"
  shows "(\<exists>e. fst (runAnalysis env cfg) = Inl e) \<longleftrightarrow> (\<exists>p\<in>set (providers cfg). lacks_binding cfg p)"
proof (cases "initializeClients cfg")
  case (Inl e)
  then have "gemini \<in> set (providers cfg)" "lacks_binding cfg gemini"
    using initializeClients_Inl_iff[of cfg] by (auto simp: lacks_binding_def)
  with Inl show ?thesis by (auto simp: runAnalysis_aborted)
next
  case (Inr cl)
  note U = runAnalysis_unfold[OF Inr, of env]
  show ?thesis
  proof (cases "\<forall>p\<in>set (providers cfg). guard_ok cfg cl p")
    case True
    from run_prompts_result[OF True, of env 0 "prompts cfg" "[]" "initial_state cfg"] U True
      guard_ok_iff[OF Inr]
    show ?thesis by auto
  next
    case False
    from run_prompts_rejects[OF False assms, of env 0 "[]" "initial_state cfg"] U False
      guard_ok_iff[OF Inr]
    show ?thesis by auto
  qed
qed

text \<open>A missing Gemini key is found before anything else happens: no task list, no emission, no
  adapter invocation.\<close>

lemma gemini_key_checked_up_front:
  assumes "gemini \<in> set (providers cfg)" "\<not> truthy (gemini_key (apiKeys cfg))"
  shows "runAnalysis env cfg =
           (Inl (Error ''Google Gemini API Key is missing.''),
            \<lparr>heap = [], tasks = [], emitted = [], issued = []\<rparr>)"
  using assms by (simp add: runAnalysis_def initializeClients_def)

section \<open>The example runs\<close>

lemma example_run:
  "runAnalysis example_env example_config
     = (Inr (projr (fst (runAnalysis example_env example_config))),
        snd (runAnalysis example_env example_config))"
proof -
  have "fst (runAnalysis example_env example_config)
          = Inr (projr (fst (runAnalysis example_env example_config)))"
    by code_simp
  then show ?thesis by (simp add: prod_eq_iff)
qed

lemma example_run_outage:
  "runAnalysis example_env_outage example_config
     = (Inr (projr (fst (runAnalysis example_env_outage example_config))),
        snd (runAnalysis example_env_outage example_config))"
proof -
  have "fst (runAnalysis example_env_outage example_config)
          = Inr (projr (fst (runAnalysis example_env_outage example_config)))"
    by code_simp
  then show ?thesis by (simp add: prod_eq_iff)
qed

lemma example_distinct: "distinct (providers example_config)"
  by (simp add: example_config_def)

lemma example_sizes:
  "length (prompts example_config) = 1" "length (providers example_config) = 2"
  by (simp_all add: example_config_def)

text \<open>Why the providers are taken distinct: with a provider selected twice, both tasks of a prompt
  get the same id, \<open>findIndex\<close> only ever finds the first, and the second is still \<open>pending\<close> when
  the run returns.\<close>

lemma repeated_provider_leaves_a_task_pending:
  "map status (heap (snd (runAnalysis example_env (example_config\<lparr>providers := [openai, openai]\<rparr>))))
     = [completed, pending]"
  by code_simp

section \<open>Runs aborted by a guard\<close>

lemma aborted_at_first_prompt:
  assumes "initializeClients cfg = Inr cl"
    and "\<not> (\<forall>p\<in>set (providers cfg). guard_ok cfg cl p)"
    and "prompts cfg = pt # rest"
  shows "\<exists>e. runAnalysis env cfg =
           (Inl e, foldl (start_mapper env cfg cl 0 pt) (initial_state cfg) (providers cfg))"
  using run_prompt_rejects[OF assms(2), of env 0 pt "initial_state cfg"]
    runAnalysis_unfold[OF assms(1), of env] assms(3)
  by auto

lemma taskId_distinct: "distinct xs \<Longrightarrow> distinct (map (taskId i) xs)"
  by (simp add: distinct_map inj_on_def) (blast dest: taskId_inj)

lemma aborted_history:
  assumes dp: "distinct (providers cfg)"
    and k: "k < length (initial_tasks cfg)"
  shows "status_history (foldl (start_mapper env cfg cl 0 pt) (initial_state cfg) (providers cfg)) k
           \<in> {[pending], [pending, in_progress]}"
proof -
  let ?st0 = "initial_state cfg"
  let ?st1 = "foldl (start_mapper env cfg cl 0 pt) ?st0 (providers cfg)"
  have h0: "heap ?st0 = initial_tasks cfg" by (simp add: initial_state_def)
  have dist0: "distinct (map task_id (heap ?st0))"
    using initial_distinct[OF dp] h0 by simp
  have pre: "\<forall>p\<in>set (providers cfg). \<forall>k<length (heap ?st0).
               task_id (heap ?st0 ! k) = taskId 0 p \<longrightarrow> status (heap ?st0 ! k) \<noteq> in_progress"
    using initial_by_index h0 by simp
  have E: "marks_effect (taskId 0) (\<lambda>_. in_progress) (\<lambda>_. None) (providers cfg) ?st0 ?st1"
    by (rule fold_marks[OF _ initial_inv dist0 taskId_distinct[OF dp] pre])
      (simp add: start_mapper_step)
  from k h0 have k0: "k < length (heap ?st0)" by simp
  show ?thesis
  proof (cases "task_id (heap ?st0 ! k) \<in> taskId 0 ` set (providers cfg)")
    case True
    then obtain p where "p \<in> set (providers cfg)" "task_id (heap ?st0 ! k) = taskId 0 p" by auto
    with E k0 have "status_history ?st1 k = status_history ?st0 k @ [in_progress]"
      unfolding marks_effect_def by blast
    with initial_history[OF k] show ?thesis by simp
  next
    case False
    with E k0 have "status_history ?st1 k = status_history ?st0 k"
      unfolding marks_effect_def by blast
    with initial_history[OF k] show ?thesis by simp
  qed
qed

section \<open>Counting emissions\<close>

lemma fold_emits:
  fixes f :: "RunState \<Rightarrow> 'x \<Rightarrow> RunState"
  assumes "\<forall>x\<in>set xs. \<forall>st.
             heap (f st x) = heap (updateTaskStatus (tid x) (sts x) (err x) st)
           \<and> tasks (f st x) = tasks (updateTaskStatus (tid x) (sts x) (err x) st)
           \<and> emitted (f st x) = emitted (updateTaskStatus (tid x) (sts x) (err x) st)"
    and "tracker_inv st"
    and "\<forall>x\<in>set xs. tid x \<in> task_id ` set (heap st)"
  shows "tracker_inv (foldl f st xs)
    \<and> map task_id (heap (foldl f st xs)) = map task_id (heap st)
    \<and> length (emitted (foldl f st xs)) = length (emitted st) + length xs"
  using assms
proof (induction xs arbitrary: st)
  case Nil
  then show ?case by simp
next
  case (Cons y ys)
  let ?u = "updateTaskStatus (tid y) (sts y) (err y) st"
  let ?st1 = "f st y"
  from Cons.prems(1) have step: "heap ?st1 = heap ?u" "tasks ?st1 = tasks ?u" "emitted ?st1 = emitted ?u"
    by simp_all
  from Cons.prems(1) have steps: "\<forall>x\<in>set ys. \<forall>st.
             heap (f st x) = heap (updateTaskStatus (tid x) (sts x) (err x) st)
           \<and> tasks (f st x) = tasks (updateTaskStatus (tid x) (sts x) (err x) st)
           \<and> emitted (f st x) = emitted (updateTaskStatus (tid x) (sts x) (err x) st)"
    by simp
  have inv1: "tracker_inv ?st1"
    using tracker_inv_cong[OF step] update_inv[OF Cons.prems(2), of "tid y" "sts y" "err y"] by simp
  have ids1: "map task_id (heap ?st1) = map task_id (heap st)"
    using step(1) update_frame(4)[OF Cons.prems(2), of "tid y" "sts y" "err y"] by simp
  then have "task_id ` set (heap ?st1) = task_id ` set (heap st)"
    by (metis set_map)
  with Cons.prems(3) have pres1: "\<forall>x\<in>set ys. tid x \<in> task_id ` set (heap ?st1)" by simp
  from Cons.prems(3) have "tid y \<in> task_id ` set (heap st)" by simp
  with update_emitted[OF Cons.prems(2), of "tid y" "sts y" "err y"] step(3)
  have len1: "length (emitted ?st1) = Suc (length (emitted st))" by simp
  from Cons.IH[OF steps inv1 pres1] ids1 len1 show ?case by simp
qed

lemma run_prompt_emits:
  assumes inv: "tracker_inv st"
    and ok: "\<forall>p\<in>set (providers cfg). guard_ok cfg cl p"
    and pres: "\<forall>p\<in>set (providers cfg). taskId i p \<in> task_id ` set (heap st)"
  shows "tracker_inv (snd (run_prompt env cfg cl i pt st))
    \<and> map task_id (heap (snd (run_prompt env cfg cl i pt st))) = map task_id (heap st)
    \<and> length (emitted (snd (run_prompt env cfg cl i pt st)))
        = length (emitted st) + 2 * length (providers cfg)"
proof -
  let ?ps = "providers cfg"
  let ?d = "dispatch env cfg cl i pt"
  let ?st1 = "foldl (start_mapper env cfg cl i pt) st ?ps"
  let ?order = "sort_key (finish env i) ?ps"
  let ?st2 = "foldl (settle_mapper env cfg cl i pt) ?st1 ?order"
  from ok have okd: "\<forall>p\<in>set ?ps. \<exists>outcome. ?d p = Inr outcome"
    by (simp add: dispatch_Inr_iff)
  then have none: "[e. Inl e \<leftarrow> map ?d ?ps] = []"
    by (simp only: no_rejection_iff)
  then have st2: "snd (run_prompt env cfg cl i pt st) = ?st2"
    by (simp only: run_prompt_def Let_def list.case snd_conv)
  have E1: "tracker_inv ?st1 \<and> map task_id (heap ?st1) = map task_id (heap st)
            \<and> length (emitted ?st1) = length (emitted st) + length ?ps"
    by (rule fold_emits[where tid = "taskId i" and sts = "\<lambda>_. in_progress" and err = "\<lambda>_. None",
          OF _ inv pres]) (simp add: start_mapper_step)
  then have "task_id ` set (heap ?st1) = task_id ` set (heap st)" by (metis set_map)
  with pres have pres1: "\<forall>p\<in>set ?order. taskId i p \<in> task_id ` set (heap ?st1)" by simp
  have steps2: "\<forall>p\<in>set ?order. \<forall>s.
       heap (settle_mapper env cfg cl i pt s p)
         = heap (updateTaskStatus (taskId i p) (fst (settled_mark env cfg cl i pt p))
                   (snd (settled_mark env cfg cl i pt p)) s)
     \<and> tasks (settle_mapper env cfg cl i pt s p)
         = tasks (updateTaskStatus (taskId i p) (fst (settled_mark env cfg cl i pt p))
                   (snd (settled_mark env cfg cl i pt p)) s)
     \<and> emitted (settle_mapper env cfg cl i pt s p)
         = emitted (updateTaskStatus (taskId i p) (fst (settled_mark env cfg cl i pt p))
                   (snd (settled_mark env cfg cl i pt p)) s)"
  proof (intro ballI allI)
    fix p s assume "p \<in> set ?order"
    with okd obtain outcome where "?d p = Inr outcome" by auto
    from settle_mapper_step[OF this] show "heap (settle_mapper env cfg cl i pt s p)
         = heap (updateTaskStatus (taskId i p) (fst (settled_mark env cfg cl i pt p))
                   (snd (settled_mark env cfg cl i pt p)) s)
     \<and> tasks (settle_mapper env cfg cl i pt s p)
         = tasks (updateTaskStatus (taskId i p) (fst (settled_mark env cfg cl i pt p))
                   (snd (settled_mark env cfg cl i pt p)) s)
     \<and> emitted (settle_mapper env cfg cl i pt s p)
         = emitted (updateTaskStatus (taskId i p) (fst (settled_mark env cfg cl i pt p))
                   (snd (settled_mark env cfg cl i pt p)) s)"
      by simp
  qed
  have E2: "tracker_inv ?st2 \<and> map task_id (heap ?st2) = map task_id (heap ?st1)
            \<and> length (emitted ?st2) = length (emitted ?st1) + length ?order"
    using E1 by (intro fold_emits[OF steps2 _ pres1]) simp
  from E1 E2 st2 show ?thesis by simp
qed

lemma run_prompts_emits:
  assumes "tracker_inv st"
    and ok: "\<forall>p\<in>set (providers cfg). guard_ok cfg cl p"
    and "\<forall>j<length pts. \<forall>p\<in>set (providers cfg). taskId (i + j) p \<in> task_id ` set (heap st)"
  shows "length (emitted (snd (run_prompts env cfg cl i pts acc st)))
           = length (emitted st) + 2 * (length pts * length (providers cfg))"
  using assms(1,3)
proof (induction pts arbitrary: i acc st)
  case Nil
  then show ?case by simp
next
  case (Cons pt pts)
  let ?rp = "run_prompt env cfg cl i pt st"
  let ?st1 = "snd ?rp"
  let ?r = "\<lparr>prompt = pt, providerResponses = map (settled_response env cfg cl i pt) (providers cfg)\<rparr>"
  from Cons.prems(2) have pres0: "\<forall>p\<in>set (providers cfg). taskId i p \<in> task_id ` set (heap st)"
    by force
  note RP = run_prompt_emits[OF Cons.prems(1) ok pres0, of env pt]
  from RP have "task_id ` set (heap ?st1) = task_id ` set (heap st)" by (metis set_map)
  moreover have "\<forall>j<length pts. \<forall>p\<in>set (providers cfg). taskId (Suc i + j) p \<in> task_id ` set (heap st)"
  proof (intro allI impI ballI)
    fix j p assume "j < length pts" "p \<in> set (providers cfg)"
    with Cons.prems(2)[rule_format, of "Suc j" p]
    show "taskId (Suc i + j) p \<in> task_id ` set (heap st)" by simp
  qed
  ultimately have pres1: "\<forall>j<length pts. \<forall>p\<in>set (providers cfg).
                            taskId (Suc i + j) p \<in> task_id ` set (heap ?st1)" by simp
  have unf: "run_prompts env cfg cl i (pt # pts) acc st
               = run_prompts env cfg cl (Suc i) pts (acc @ [?r]) ?st1"
    using run_prompt_result[OF ok, of env i pt st] by (cases ?rp) simp
  from Cons.IH[OF _ pres1, of "acc @ [?r]"] RP unf show ?case by simp
qed

lemma runAnalysis_emits:
  assumes "fst (runAnalysis env cfg) = Inr results"
  shows "length (emitted (snd (runAnalysis env cfg)))
           = 1 + 2 * (length (prompts cfg) * length (providers cfg))"
  using assms
proof (cases rule: returns_cases)
  case (1 cl)
  then show ?thesis by (simp add: runAnalysis_unfold initial_state_def)
next
  case (2 cl)
  have pres: "\<forall>j<length (prompts cfg). \<forall>p\<in>set (providers cfg).
                taskId (0 + j) p \<in> task_id ` set (heap (initial_state cfg))"
  proof (intro allI impI ballI)
    fix j p assume j: "j < length (prompts cfg)" and "p \<in> set (providers cfg)"
    then obtain m where m: "m < length (providers cfg)" "providers cfg ! m = p"
      by (auto simp: in_set_conv_nth)
    let ?k = "j * length (providers cfg) + m"
    have "?k < j * length (providers cfg) + length (providers cfg)" using m(1) by simp
    also have "\<dots> = Suc j * length (providers cfg)" by simp
    also have "\<dots> \<le> length (prompts cfg) * length (providers cfg)"
      using j by (intro mult_le_mono1) simp
    finally have "?k < length (initial_tasks cfg)" by (simp add: initial_length)
    then have "initial_tasks cfg ! ?k \<in> set (initial_tasks cfg)" by simp
    moreover have "task_id (initial_tasks cfg ! ?k) = taskId j p"
      using initial_nth[OF j m(1)] m(2) by simp
    ultimately show "taskId (0 + j) p \<in> task_id ` set (heap (initial_state cfg))"
      by (force simp: initial_state_def)
  qed
  from run_prompts_emits[OF initial_inv 2(2) pres, of env "[]"] runAnalysis_unfold[OF 2(1), of env]
  show ?thesis by (simp add: initial_state_def)
qed

section \<open>The claims\<close>

subsection \<open>C1: Configuration errors\<close>

text \<open>C1: with Gemini fully configured and listed first and the OpenAI key missing, the run is
  rejected with the guard's error only after the Gemini adapter has been invoked (its raw-completion
  request is sent), and both tasks are left \<open>in_progress\<close>.\<close>

theorem misconfigured_run_raises_after_a_call:
  "openai \<in> set (providers misconfigured_config)
   \<and> openai_key (apiKeys misconfigured_config) = None
   \<and> fst (runAnalysis example_env misconfigured_config)
       = Inl (Error ''OpenAI client not initialized properly.'')
   \<and> issued (snd (runAnalysis example_env misconfigured_config)) = [(0, gemini)]
   \<and> map status (heap (snd (runAnalysis example_env misconfigured_config)))
       = [in_progress, in_progress]"
  by code_simp

subsection \<open>C2: Extraction failures\<close>

text \<open>C2, as the code has it: once the raw completion and the extraction call have succeeded, a
  reply that \<open>JSON.parse\<close> rejects makes the Gemini, OpenAI and Copilot responses error-shaped,
  and so does a Perplexity reply whose first fenced \<open>json\<close> block is rejected by \<open>JSON.parse\<close>;
  a Perplexity reply without any fenced \<open>json\<close> block is no failure: the brand list is empty, and
  when the auxiliary questions succeed the response keeps the raw text and has no \<open>error\<close>.\<close>

theorem extraction_failure:
  "(snd (n (GeminiClient c) m (RawCompletion pt)) = Inr raw
      \<and> snd (n (GeminiClient c) m (Extraction (clientName cfg # competitors cfg) raw)) = Inr reply_text
      \<and> ps reply_text = Inl e
    \<longrightarrow> error_shaped (runGeminiAnalysisForPrompt n ps pt cfg c m))
 \<and> (snd (n (BearerKey c) m (RawCompletion pt)) = Inr raw
      \<and> snd (n (BearerKey c) m (Extraction (clientName cfg # competitors cfg) raw)) = Inr reply_text
      \<and> ps reply_text = Inl e
    \<longrightarrow> error_shaped (runOpenAIAnalysisForPrompt n ps pt cfg c m))
 \<and> (snd (n (AzureClient k ep) m (RawCompletion pt)) = Inr raw
      \<and> snd (n (AzureClient k ep) m (Extraction (clientName cfg # competitors cfg) raw)) = Inr reply_text
      \<and> ps reply_text = Inl e
    \<longrightarrow> error_shaped (runCopilotAnalysisForPrompt n ps pt cfg (k, ep) m))
 \<and> (snd (n (BearerKey c) m (RawCompletion pt)) = Inr raw
      \<and> snd (n (BearerKey c) m (Extraction (clientName cfg # competitors cfg) raw)) = Inr reply_text
      \<and> match_json_block reply_text = Some block \<and> ps block = Inl e
    \<longrightarrow> error_shaped (runPerplexityAnalysisForPrompt n ps pt cfg c m))
 \<and> (snd (n (BearerKey c) m (RawCompletion pt)) = Inr raw
      \<and> snd (n (BearerKey c) m (Extraction (clientName cfg # competitors cfg) raw)) = Inr reply_text
      \<and> match_json_block reply_text = None
      \<and> answer_questions (n (BearerKey c) m) (additionalQuestions cfg) raw = Inr answers
    \<longrightarrow> runPerplexityAnalysisForPrompt n ps pt cfg c m =
          \<lparr>provider = perplexity, response = raw, brandAnalyses = Arr [],
           additionalAnswers = answers, error = None\<rparr>)"
  by (simp add: runGeminiAnalysisForPrompt_def runOpenAIAnalysisForPrompt_def
      runPerplexityAnalysisForPrompt_def runCopilotAnalysisForPrompt_def error_shaped_def
      bind_exn_def Let_def)

theorem extraction_failure_witness:
  "error_shaped (runGeminiAnalysisForPrompt (reply_with ''Anvils by Acme.'' ''No brands found.'')
     example_parse ''best anvils'' example_config ''g-key'' ''model'')
   \<and> error_shaped (runPerplexityAnalysisForPrompt
     (reply_with ''Anvils by Acme.'' (''```json'' @ [CHR 0x0A] @ ''not json'' @ [CHR 0x0A] @ ''```''))
     example_parse ''best anvils'' example_config ''p-key'' ''model'')"
proof -
  let ?n = "reply_with ''Anvils by Acme.'' ''No brands found.''"
  let ?fenced = "''```json'' @ [CHR 0x0A] @ ''not json'' @ [CHR 0x0A] @ ''```''"
  let ?n' = "reply_with ''Anvils by Acme.'' ?fenced"
  have g: "snd (?n (GeminiClient ''g-key'') ''model'' (RawCompletion ''best anvils''))
             = Inr ''Anvils by Acme.''
         \<and> snd (?n (GeminiClient ''g-key'') ''model''
                  (Extraction (clientName example_config # competitors example_config)
                     ''Anvils by Acme.'')) = Inr ''No brands found.''
         \<and> example_parse ''No brands found.'' = Inl (Error ''Unexpected token in JSON'')"
    by (simp add: reply_with_def example_parse_def)
  have m: "match_json_block ?fenced = Some ''not json''"
    by code_simp
  have x: "snd (?n' (BearerKey ''p-key'') ''model'' (RawCompletion ''best anvils''))
             = Inr ''Anvils by Acme.''
         \<and> snd (?n' (BearerKey ''p-key'') ''model''
                  (Extraction (clientName example_config # competitors example_config)
                     ''Anvils by Acme.'')) = Inr ?fenced
         \<and> match_json_block ?fenced = Some ''not json''
         \<and> example_parse ''not json'' = Inl (Error ''Unexpected token in JSON'')"
    using m by (simp add: reply_with_def example_parse_def)
  have 1: "error_shaped (runGeminiAnalysisForPrompt ?n example_parse ''best anvils''
             example_config ''g-key'' ''model'')"
    using extraction_failure[where n = "?n" and c = "''g-key''" and m = "''model''"
        and pt = "''best anvils''" and raw = "''Anvils by Acme.''" and cfg = example_config
        and reply_text = "''No brands found.''" and ps = example_parse
        and e = "Error ''Unexpected token in JSON''", THEN conjunct1] g by (rule mp)
  have 2: "error_shaped (runPerplexityAnalysisForPrompt ?n' example_parse ''best anvils''
             example_config ''p-key'' ''model'')"
    using extraction_failure[where n = "?n'" and c = "''p-key''" and m = "''model''"
        and pt = "''best anvils''" and raw = "''Anvils by Acme.''" and cfg = example_config
        and reply_text = "?fenced" and ps = example_parse and block = "''not json''"
        and e = "Error ''Unexpected token in JSON''",
        THEN conjunct2, THEN conjunct2, THEN conjunct2, THEN conjunct1] x by (rule mp)
  from 1 2 show ?thesis ..
qed

text \<open>C2 as stated fails for Perplexity: the extraction reply holds no JSON at all, yet the response
  has no \<open>error\<close> and keeps the raw completion.\<close>

theorem unfenced_reply_keeps_raw_text:
  "error (runPerplexityAnalysisForPrompt (reply_with ''Anvils by Acme.'' ''No brands found.'')
            example_parse ''best anvils'' example_config ''p-key'' ''model'') = None
   \<and> response (runPerplexityAnalysisForPrompt (reply_with ''Anvils by Acme.'' ''No brands found.'')
            example_parse ''best anvils'' example_config ''p-key'' ''model'') = ''Anvils by Acme.''
   \<and> example_parse ''No brands found.'' = Inl (Error ''Unexpected token in JSON'')
   \<and> match_json_block ''No brands found.'' = None"
  by code_simp

subsection \<open>C3: Error and data fields\<close>

text \<open>C3, as the code has it: whenever a response built by one of the four adapters or by the
  orchestrator's fallback has its \<open>error\<close> field set, its raw text is the empty string and its brand
  analyses and additional answers are empty lists. (The converse does not hold.)\<close>

theorem error_set_implies_data_empty:
  assumes "r \<in> {runGeminiAnalysisForPrompt n ps pt cfg c m,
                runOpenAIAnalysisForPrompt n ps pt cfg c m,
                runPerplexityAnalysisForPrompt n ps pt cfg c m,
                runCopilotAnalysisForPrompt n ps pt cfg cc m,
                snd (mapper_result p (Inl e))}"
    and "error r \<noteq> None"
  shows "response r = [] \<and> brandAnalyses r = Arr [] \<and> additionalAnswers r = []"
proof -
  from assms(1) consider
      (g) "r = runGeminiAnalysisForPrompt n ps pt cfg c m"
    | (o) "r = runOpenAIAnalysisForPrompt n ps pt cfg c m"
    | (x) "r = runPerplexityAnalysisForPrompt n ps pt cfg c m"
    | (a) "r = runCopilotAnalysisForPrompt n ps pt cfg cc m"
    | (f) "r = snd (mapper_result p (Inl e))"
    by blast
  then have "error_shaped r"
  proof cases
    case g
    with assms(2) show ?thesis by (simp add: adapter_error_shapes(1))
  next
    case o
    with assms(2) show ?thesis by (simp add: adapter_error_shapes(2))
  next
    case x
    with assms(2) show ?thesis by (simp add: adapter_error_shapes(3))
  next
    case a
    with assms(2) show ?thesis by (simp add: adapter_error_shapes(4))
  next
    case f
    then show ?thesis by (simp add: mapper_result_def error_shaped_def Let_def)
  qed
  then show ?thesis by (simp add: error_shaped_def)
qed

theorem error_set_implies_data_empty_witness:
  "error (runGeminiAnalysisForPrompt (failing_with (Error ''API Error (500): down'')) example_parse
            ''best anvils'' example_config ''g-key'' ''model'') \<noteq> None
   \<and> response (runGeminiAnalysisForPrompt (failing_with (Error ''API Error (500): down''))
            example_parse ''best anvils'' example_config ''g-key'' ''model'') = []
   \<and> brandAnalyses (runGeminiAnalysisForPrompt (failing_with (Error ''API Error (500): down''))
            example_parse ''best anvils'' example_config ''g-key'' ''model'') = Arr []
   \<and> additionalAnswers (runGeminiAnalysisForPrompt (failing_with (Error ''API Error (500): down''))
            example_parse ''best anvils'' example_config ''g-key'' ''model'') = []"
proof -
  let ?r = "runGeminiAnalysisForPrompt (failing_with (Error ''API Error (500): down''))
              example_parse ''best anvils'' example_config ''g-key'' ''model''"
  have set: "error ?r \<noteq> None"
    by (simp add: runGeminiAnalysisForPrompt_def failing_with_def bind_exn_def)
  from error_set_implies_data_empty[of ?r _ _ _ _ _ _ _ _ _, OF _ set] set show ?thesis
    by blast
qed

text \<open>C3 as stated fails from right to left: an OpenAI chain that succeeds with an empty completion,
  a JSON object without brands and no auxiliary question returns three empty data fields and no
  \<open>error\<close>.\<close>

theorem empty_success_has_no_error:
  "error (runOpenAIAnalysisForPrompt (reply_with '''' ''{}'') example_parse ''best anvils''
            example_config ''o-key'' ''model'') = None
   \<and> response (runOpenAIAnalysisForPrompt (reply_with '''' ''{}'') example_parse ''best anvils''
            example_config ''o-key'' ''model'') = []
   \<and> brandAnalyses (runOpenAIAnalysisForPrompt (reply_with '''' ''{}'') example_parse
            ''best anvils'' example_config ''o-key'' ''model'') = Arr []
   \<and> additionalAnswers (runOpenAIAnalysisForPrompt (reply_with '''' ''{}'') example_parse
            ''best anvils'' example_config ''o-key'' ''model'') = []"
  by code_simp

subsection \<open>C4: Order of the results\<close>

text \<open>C4: whenever \<open>runAnalysis\<close> returns, the results list the input prompts in input order, the
  responses of every result list the selected providers in selection order, and the returned
  results are the same whatever the order in which the adapter calls settle.\<close>

theorem results_keep_input_order:
  assumes "fst (runAnalysis env cfg) = Inr results"
  shows "map prompt results = prompts cfg
         \<and> (\<forall>r\<in>set results. map provider (providerResponses r) = providers cfg)
         \<and> fst (runAnalysis (env\<lparr>finish := any_order\<rparr>) cfg) = Inr results"
  using assms
proof (cases rule: returns_cases)
  case (1 cl)
  then show ?thesis
    by (simp add: runAnalysis_unfold)
next
  case (2 cl)
  have "map provider (providerResponses r) = providers cfg" if "r \<in> set results" for r
  proof -
    from that 2(3) obtain i where i: "i < length (prompts cfg)" "r = expected_results env cfg cl ! i"
      by (auto simp: in_set_conv_nth)
    with 2(2) show ?thesis
      by (simp add: expected_results_nth settled_response_provider list_eq_iff_nth_eq)
  qed
  moreover have "expected_results (env\<lparr>finish := any_order\<rparr>) cfg cl = expected_results env cfg cl"
    by (auto simp: expected_results_def settled_response_finish)
  then have "fst (runAnalysis (env\<lparr>finish := any_order\<rparr>) cfg) = Inr results"
    using run_prompts_result[OF 2(2), of "env\<lparr>finish := any_order\<rparr>" 0 "prompts cfg" "[]" "initial_state cfg"]
      2(3) runAnalysis_unfold[OF 2(1), of "env\<lparr>finish := any_order\<rparr>"]
    by (simp add: expected_results_def)
  ultimately show ?thesis using 2(3) by (simp add: expected_results_prompts)
qed

theorem results_keep_input_order_witness:
  "map prompt (projr (fst (runAnalysis example_env example_config))) = [''best anvils'']
   \<and> map provider (providerResponses (hd (projr (fst (runAnalysis example_env example_config)))))
       = [gemini, openai]
   \<and> fst (runAnalysis (example_env\<lparr>finish := (\<lambda>pIndex p. if p = gemini then 0 else 7)\<rparr>)
            example_config)
       = Inr (projr (fst (runAnalysis example_env example_config)))"
proof -
  let ?R = "projr (fst (runAnalysis example_env example_config))"
  have ret: "fst (runAnalysis example_env example_config) = Inr ?R"
    using example_run by (metis fst_conv)
  note T = results_keep_input_order[OF ret, of "\<lambda>pIndex p. if p = gemini then 0 else 7"]
  from T have p: "map prompt ?R = [''best anvils'']" by (simp add: example_config_def)
  then have "?R \<noteq> []" by auto
  then have "hd ?R \<in> set ?R" by simp
  with T have "map provider (providerResponses (hd ?R)) = [gemini, openai]"
    by (simp add: example_config_def)
  with p T show ?thesis by simp
qed

subsection \<open>C5: The task list\<close>

text \<open>C5: for a configuration with distinct providers and a run that returns, the first emitted
  task list has one entry per (prompt, provider) pair, in prompt-major, provider-minor order, all
  \<open>pending\<close>; and after the run every task of the list has a terminal status.\<close>

theorem task_list_covers_all_pairs:
  assumes "distinct (providers cfg)"
    and "runAnalysis env cfg = (Inr results, st)"
  shows "emitted st \<noteq> []
    \<and> length (observed (hd (emitted st))) = length (prompts cfg) * length (providers cfg)
    \<and> (\<forall>i<length (prompts cfg). \<forall>j<length (providers cfg).
          task_id (observed (hd (emitted st)) ! (i * length (providers cfg) + j))
            = taskId i (providers cfg ! j))
    \<and> (\<forall>t\<in>set (observed (hd (emitted st))). status t = pending)
    \<and> length (deref (heap st) (tasks st)) = length (prompts cfg) * length (providers cfg)
    \<and> (\<forall>t\<in>set (deref (heap st) (tasks st)). terminal (status t))"
proof -
  let ?N = "length (providers cfg)"
  from assms(2) have ret: "fst (runAnalysis env cfg) = Inr results"
    and st: "st = snd (runAnalysis env cfg)" by simp_all
  from ret obtain cl where cl: "initializeClients cfg = Inr cl"
    by (cases rule: returns_cases) blast+
  from runAnalysis_base[OF cl, of env] st have inv: "tracker_inv st"
    and len: "length (heap st) = length (prompts cfg) * ?N"
    and hd: "hd (emitted st) = ([0..<length (initial_tasks cfg)], initial_tasks cfg)"
    by (simp_all add: base_inv_def)
  have first: "observed (hd (emitted st)) = initial_tasks cfg"
    using hd map_nth[of "initial_tasks cfg"] by (simp add: observed_def deref_def)
  have cur: "deref (heap st) (tasks st) = heap st"
    using inv by (simp add: tracker_inv_def deref_all)
  have fin: "terminal (status t)" if "t \<in> set (heap st)" for t
  proof -
    from that obtain k where k: "k < length (heap st)" "t = heap st ! k"
      by (auto simp: in_set_conv_nth)
    with len have k': "k < length (prompts cfg) * ?N" by simp
    note ix = index_split[OF k']
    from returning_run[OF assms(1,2) ix(1,2)] obtain cl'
      where ok: "\<forall>p\<in>set (providers cfg). guard_ok cfg cl' p"
        and h: "heap st ! (k div ?N * ?N + k mod ?N) =
           marked (fst (settled_mark env cfg cl' (k div ?N) (prompts cfg ! (k div ?N))
                          (providers cfg ! (k mod ?N))))
             (snd (settled_mark env cfg cl' (k div ?N) (prompts cfg ! (k div ?N))
                          (providers cfg ! (k mod ?N))))
             (marked in_progress None (initial_task cfg (k div ?N) (prompts cfg ! (k div ?N))
                          (providers cfg ! (k mod ?N))))"
      by blast
    from ix(2) ok have "guard_ok cfg cl' (providers cfg ! (k mod ?N))" by simp
    then obtain outcome
      where "dispatch env cfg cl' (k div ?N) (prompts cfg ! (k div ?N)) (providers cfg ! (k mod ?N))
               = Inr outcome"
      using dispatch_Inr_iff by blast
    from settled_mark_terminal[OF this] h ix(3) k(2) show ?thesis by simp
  qed
  have pend: "status t = pending" if "t \<in> set (initial_tasks cfg)" for t
    using that initial_by_index[of _ cfg] by (auto simp: in_set_conv_nth)
  from inv have "emitted st \<noteq> []" by (simp add: tracker_inv_def)
  with first cur len fin pend show ?thesis
    by (simp add: initial_length initial_nth)
qed

theorem task_list_covers_all_pairs_witness:
  "emitted (snd (runAnalysis example_env example_config)) \<noteq> []
   \<and> length (observed (hd (emitted (snd (runAnalysis example_env example_config))))) = 2
   \<and> task_id (observed (hd (emitted (snd (runAnalysis example_env example_config)))) ! 1)
       = taskId 0 openai
   \<and> length (deref (heap (snd (runAnalysis example_env example_config)))
               (tasks (snd (runAnalysis example_env example_config)))) = 2
   \<and> terminal (status (hd (deref (heap (snd (runAnalysis example_env example_config)))
               (tasks (snd (runAnalysis example_env example_config))))))"
proof -
  let ?S = "snd (runAnalysis example_env example_config)"
  note T = task_list_covers_all_pairs[OF example_distinct example_run]
  from T have l: "length (deref (heap ?S) (tasks ?S)) = 2" by (simp add: example_sizes)
  then have "hd (deref (heap ?S) (tasks ?S)) \<in> set (deref (heap ?S) (tasks ?S))"
    by (cases "deref (heap ?S) (tasks ?S)") auto
  with T have "terminal (status (hd (deref (heap ?S) (tasks ?S))))" by blast
  moreover from T have "task_id (observed (hd (emitted ?S)) ! (0 * length (providers example_config) + 1))
       = taskId 0 (providers example_config ! 1)"
    by (simp add: example_sizes)
  then have "task_id (observed (hd (emitted ?S)) ! 1) = taskId 0 openai"
    by (simp add: example_config_def)
  ultimately show ?thesis using T l by (simp add: example_sizes)
qed

subsection \<open>C6: Failure isolation\<close>

text \<open>C6: when the networks of two runs over one configuration agree on every adapter call except the
  one of provider \<open>a\<close> for prompt \<open>i\<close>, and the first run returns, then the second run returns too,
  with the same prompts, and the responses of every other (prompt, provider) pair are equal.\<close>

theorem failure_isolation:
  assumes "\<forall>i' p'. (i', p') \<noteq> (i, a) \<longrightarrow> net env1 i' p' = net env2 i' p'"
    and "json_parse env1 = json_parse env2"
    and "fst (runAnalysis env1 cfg) = Inr results1"
  shows "\<exists>results2. fst (runAnalysis env2 cfg) = Inr results2
    \<and> map prompt results2 = map prompt results1
    \<and> (\<forall>i'<length (prompts cfg). \<forall>j<length (providers cfg).
          (i', providers cfg ! j) \<noteq> (i, a) \<longrightarrow>
            providerResponses (results2 ! i') ! j = providerResponses (results1 ! i') ! j)"
  using assms(3)
proof (cases rule: returns_cases)
  case (1 cl)
  then show ?thesis by (simp add: runAnalysis_unfold)
next
  case (2 cl)
  from run_prompts_result[OF 2(2), of env2 0 "prompts cfg" "[]" "initial_state cfg"]
    runAnalysis_unfold[OF 2(1), of env2]
  have r2: "fst (runAnalysis env2 cfg) = Inr (expected_results env2 cfg cl)"
    by (simp add: expected_results_def)
  have "providerResponses (expected_results env2 cfg cl ! i') ! j
          = providerResponses (expected_results env1 cfg cl ! i') ! j"
    if "i' < length (prompts cfg)" "j < length (providers cfg)" "(i', providers cfg ! j) \<noteq> (i, a)"
    for i' j
    using that assms(1,2)
      settled_response_cong[of env2 i' "providers cfg ! j" env1 cfg cl "prompts cfg ! i'"]
    by (simp add: expected_results_nth)
  with r2 2(3) show ?thesis
    by (simp add: expected_results_prompts)
qed

theorem failure_isolation_witness:
  "\<exists>results2. fst (runAnalysis example_env_outage example_config) = Inr results2
     \<and> providerResponses (results2 ! 0) ! 1
         = providerResponses (projr (fst (runAnalysis example_env example_config)) ! 0) ! 1"
proof -
  let ?R = "projr (fst (runAnalysis example_env example_config))"
  have ret: "fst (runAnalysis example_env example_config) = Inr ?R"
    using example_run by (metis fst_conv)
  have same: "\<forall>i' p'. (i', p') \<noteq> (0, gemini) \<longrightarrow> net example_env i' p' = net example_env_outage i' p'"
    by (simp add: example_env_outage_def)
  have parse: "json_parse example_env = json_parse example_env_outage"
    by (simp add: example_env_outage_def)
  from failure_isolation[OF same parse ret] obtain results2
    where r2: "fst (runAnalysis example_env_outage example_config) = Inr results2"
      and o: "\<forall>i'<length (prompts example_config). \<forall>j<length (providers example_config).
          (i', providers example_config ! j) \<noteq> (0, gemini) \<longrightarrow>
            providerResponses (results2 ! i') ! j = providerResponses (?R ! i') ! j"
    by blast
  have "(0, providers example_config ! 1) \<noteq> (0, gemini)" by (simp add: example_config_def)
  with o have "providerResponses (results2 ! 0) ! 1 = providerResponses (?R ! 0) ! 1"
    by (simp add: example_sizes)
  with r2 show ?thesis by blast
qed

subsection \<open>C7: Recording the outcome of a task\<close>

text \<open>What the mapper's test \<open>if (response.error)\<close> does in a run that returns (distinct
  providers): the task of prompt \<open>i\<close> and provider \<open>j\<close> is \<open>error\<close>, with the response's message,
  exactly when the \<open>error\<close> field of the response recorded for that pair is a non-empty string,
  and \<open>completed\<close> otherwise.\<close>

lemma task_status_follows_truthiness:
  assumes "distinct (providers cfg)"
    and "runAnalysis env cfg = (Inr results, st)"
    and "i < length (prompts cfg)" and "j < length (providers cfg)"
    and "t = heap st ! (tasks st ! (i * length (providers cfg) + j))"
    and "r = providerResponses (results ! i) ! j"
  shows "task_id t = taskId i (providers cfg ! j) \<and> provider r = providers cfg ! j
    \<and> (status t = completed \<longleftrightarrow> \<not> truthy (error r))
    \<and> (status t = error_status \<longleftrightarrow> truthy (error r))
    \<and> (truthy (error r) \<longrightarrow> task_error t = error r)"
proof -
  let ?N = "length (providers cfg)"
  let ?p = "providers cfg ! j"
  from returning_run[OF assms(1-4)] obtain cl
    where ok: "\<forall>p\<in>set (providers cfg). guard_ok cfg cl p"
      and res: "results = expected_results env cfg cl"
      and inv: "tracker_inv st"
      and len: "length (heap st) = length (prompts cfg) * ?N"
      and h: "heap st ! (i * ?N + j) =
           marked (fst (settled_mark env cfg cl i (prompts cfg ! i) ?p))
             (snd (settled_mark env cfg cl i (prompts cfg ! i) ?p))
             (marked in_progress None (initial_task cfg i (prompts cfg ! i) ?p))"
    by blast
  have "i * ?N + j < i * ?N + ?N" using assms(4) by simp
  also have "\<dots> = Suc i * ?N" by simp
  also have "\<dots> \<le> length (prompts cfg) * ?N"
    using assms(3) by (intro mult_le_mono1) simp
  finally have k: "i * ?N + j < length (heap st)" using len by simp
  from nth_tasks[OF inv k] assms(5) h
  have t: "t = marked (fst (settled_mark env cfg cl i (prompts cfg ! i) ?p))
             (snd (settled_mark env cfg cl i (prompts cfg ! i) ?p))
             (marked in_progress None (initial_task cfg i (prompts cfg ! i) ?p))"
    by simp
  from assms(4) ok have g: "guard_ok cfg cl ?p" by simp
  from res assms(3,4,6) have r: "r = settled_response env cfg cl i (prompts cfg ! i) ?p"
    by (simp add: expected_results_nth)
  from t r settled_pair[OF g, of env i "prompts cfg ! i"] settled_response_provider[OF g, of env i "prompts cfg ! i"]
  show ?thesis
    by (simp add: mapper_result_def Let_def)
qed

lemma task_status_follows_truthiness_example:
  "truthy (error (providerResponses (projr (fst (runAnalysis example_env_outage example_config)) ! 0) ! 0))
   \<and> status (heap (snd (runAnalysis example_env_outage example_config))
               ! (tasks (snd (runAnalysis example_env_outage example_config)) ! 0)) = error_status
   \<and> task_error (heap (snd (runAnalysis example_env_outage example_config))
               ! (tasks (snd (runAnalysis example_env_outage example_config)) ! 0))
       = Some ''API Error (503): unavailable''
   \<and> status (heap (snd (runAnalysis example_env_outage example_config))
               ! (tasks (snd (runAnalysis example_env_outage example_config)) ! 1)) = completed"
proof -
  let ?R = "projr (fst (runAnalysis example_env_outage example_config))"
  let ?S = "snd (runAnalysis example_env_outage example_config)"
  have e0: "error (providerResponses (?R ! 0) ! 0) = Some ''API Error (503): unavailable''"
    by code_simp
  have e1: "error (providerResponses (?R ! 0) ! 1) = None"
    by code_simp
  note T0 = task_status_follows_truthiness[OF example_distinct example_run_outage,
      of 0 0 "heap ?S ! (tasks ?S ! 0)" "providerResponses (?R ! 0) ! 0"]
  note T1 = task_status_follows_truthiness[OF example_distinct example_run_outage,
      of 0 1 "heap ?S ! (tasks ?S ! 1)" "providerResponses (?R ! 0) ! 1"]
  from T0 e0 T1 e1 show ?thesis
    by (simp add: example_sizes truthy_def)
qed


subsection \<open>C8: Progress emissions\<close>

text \<open>C8: \<open>updateTaskStatus\<close> either finds no task with the given id and changes nothing, or
  changes that task and calls \<open>onProgress\<close> exactly once, with an array that reads as the entire
  current task list; every list \<open>onProgress\<close> receives during a run has one entry per
  (prompt, provider) pair; once the clients are initialized the first list emitted is the
  initial all-pending list, and the last one emitted is the current task list; and a run that
  returns has emitted one list at initialization and one for each of the two status changes of
  every task.\<close>

theorem progress_emits_full_snapshots:
  "(findIndex (\<lambda>t. task_id t = tid) (deref (heap st) (tasks st)) = None
      \<longrightarrow> updateTaskStatus tid s e st = st)
   \<and> (\<forall>k. findIndex (\<lambda>t. task_id t = tid) (deref (heap st) (tasks st)) = Some k
      \<longrightarrow> emitted (updateTaskStatus tid s e st)
            = emitted st @ [(tasks (updateTaskStatus tid s e st), heap (updateTaskStatus tid s e st))]
          \<and> observed (tasks (updateTaskStatus tid s e st), heap (updateTaskStatus tid s e st))
            = deref (heap (updateTaskStatus tid s e st)) (tasks (updateTaskStatus tid s e st)))
   \<and> (\<forall>snapshot \<in> set (emitted (snd (runAnalysis env cfg))).
        length (observed snapshot) = length (prompts cfg) * length (providers cfg))
   \<and> (\<forall>cl. initializeClients cfg = Inr cl \<longrightarrow>
        emitted (snd (runAnalysis env cfg)) \<noteq> []
        \<and> observed (hd (emitted (snd (runAnalysis env cfg)))) = initial_tasks cfg
        \<and> (\<forall>t\<in>set (initial_tasks cfg). status t = pending)
        \<and> observed (last (emitted (snd (runAnalysis env cfg))))
            = deref (heap (snd (runAnalysis env cfg))) (tasks (snd (runAnalysis env cfg))))
   \<and> (\<forall>results. fst (runAnalysis env cfg) = Inr results \<longrightarrow>
        length (emitted (snd (runAnalysis env cfg)))
          = 1 + 2 * (length (prompts cfg) * length (providers cfg)))"
proof (intro conjI)
  show "\<forall>results. fst (runAnalysis env cfg) = Inr results \<longrightarrow>
        length (emitted (snd (runAnalysis env cfg)))
          = 1 + 2 * (length (prompts cfg) * length (providers cfg))"
    using runAnalysis_emits by blast
  show "findIndex (\<lambda>t. task_id t = tid) (deref (heap st) (tasks st)) = None
      \<longrightarrow> updateTaskStatus tid s e st = st"
    using update_emits_whole_list by blast
  show "\<forall>k. findIndex (\<lambda>t. task_id t = tid) (deref (heap st) (tasks st)) = Some k
      \<longrightarrow> emitted (updateTaskStatus tid s e st)
            = emitted st @ [(tasks (updateTaskStatus tid s e st), heap (updateTaskStatus tid s e st))]
          \<and> observed (tasks (updateTaskStatus tid s e st), heap (updateTaskStatus tid s e st))
            = deref (heap (updateTaskStatus tid s e st)) (tasks (updateTaskStatus tid s e st))"
    using update_emits_whole_list[of tid st s e] by (simp add: observed_def)
  let ?st = "snd (runAnalysis env cfg)"
  show "\<forall>snapshot \<in> set (emitted ?st).
        length (observed snapshot) = length (prompts cfg) * length (providers cfg)"
  proof (cases "initializeClients cfg")
    case (Inl e)
    then show ?thesis by (simp add: runAnalysis_aborted)
  next
    case (Inr cl)
    from runAnalysis_base[OF Inr, of env] have inv: "tracker_inv ?st"
      and len: "length (heap ?st) = length (prompts cfg) * length (providers cfg)"
      by (simp_all add: base_inv_def)
    show ?thesis
    proof
      fix snapshot assume s: "snapshot \<in> set (emitted ?st)"
      with inv have "length (snd snapshot) = length (heap ?st)" by (simp add: tracker_inv_def)
      with observed_snapshot[OF inv s] len
      show "length (observed snapshot) = length (prompts cfg) * length (providers cfg)" by simp
    qed
  qed
  show "\<forall>cl. initializeClients cfg = Inr cl \<longrightarrow>
        emitted ?st \<noteq> []
        \<and> observed (hd (emitted ?st)) = initial_tasks cfg
        \<and> (\<forall>t\<in>set (initial_tasks cfg). status t = pending)
        \<and> observed (last (emitted ?st)) = deref (heap ?st) (tasks ?st)"
  proof (intro allI impI)
    fix cl assume cl: "initializeClients cfg = Inr cl"
    from runAnalysis_base[OF cl, of env] have inv: "tracker_inv ?st"
      and hd: "hd (emitted ?st) = ([0..<length (initial_tasks cfg)], initial_tasks cfg)"
      by (simp_all add: base_inv_def)
    from inv have ne: "emitted ?st \<noteq> []" and l: "last (emitted ?st) = (tasks ?st, heap ?st)"
      by (simp_all add: tracker_inv_def)
    have "observed (hd (emitted ?st)) = initial_tasks cfg"
      using hd map_nth[of "initial_tasks cfg"] by (simp add: observed_def deref_def)
    moreover have "\<forall>t\<in>set (initial_tasks cfg). status t = pending"
      using initial_by_index[of _ cfg] by (auto simp: in_set_conv_nth)
    moreover have "observed (last (emitted ?st)) = deref (heap ?st) (tasks ?st)"
      using l by (simp add: observed_def)
    ultimately show "emitted ?st \<noteq> []
        \<and> observed (hd (emitted ?st)) = initial_tasks cfg
        \<and> (\<forall>t\<in>set (initial_tasks cfg). status t = pending)
        \<and> observed (last (emitted ?st)) = deref (heap ?st) (tasks ?st)"
      using ne by simp
  qed
qed

theorem progress_emits_full_snapshots_witness:
  "emitted (snd (runAnalysis example_env example_config)) \<noteq> []
   \<and> observed (hd (emitted (snd (runAnalysis example_env example_config))))
       = initial_tasks example_config
   \<and> length (observed (emitted (snd (runAnalysis example_env example_config)) ! 3)) = 2
   \<and> length (emitted (snd (runAnalysis example_env example_config))) = 5"
proof -
  let ?S = "snd (runAnalysis example_env example_config)"
  have ret: "fst (runAnalysis example_env example_config)
               = Inr (projr (fst (runAnalysis example_env example_config)))"
    using example_run by (metis fst_conv)
  have "\<exists>cl. initializeClients example_config = Inr cl"
    by (simp add: initializeClients_def example_config_def Let_def truthy_def)
  then obtain cl where cl: "initializeClients example_config = Inr cl" ..
  note T = progress_emits_full_snapshots[of _ _ _ _ example_env example_config]
  from T have "\<forall>results. fst (runAnalysis example_env example_config) = Inr results \<longrightarrow>
        length (emitted ?S)
          = 1 + 2 * (length (prompts example_config) * length (providers example_config))"
    by blast
  from this[rule_format, OF ret] have n: "length (emitted ?S) = 5"
    by (simp add: example_sizes)
  then have m: "emitted ?S ! 3 \<in> set (emitted ?S)" by simp
  from T m have "length (observed (emitted ?S ! 3)) = 2"
    by (simp add: example_sizes)
  moreover from T cl have "emitted ?S \<noteq> [] \<and> observed (hd (emitted ?S)) = initial_tasks example_config"
    by blast
  ultimately show ?thesis using n by simp
qed

subsection \<open>C9: The status state machine\<close>

text \<open>What holds of every run over a configuration with distinct providers: the statuses a task
  shows over the successive emissions form a beginning of the path \<open>pending\<close>, \<open>in_progress\<close>,
  terminal status (\<open>completed\<close> or \<open>error\<close>); and in a run that returns the path is complete.\<close>

lemma status_path_of_a_run:
  assumes "distinct (providers cfg)"
    and "k < length (heap (snd (runAnalysis env cfg)))"
  shows "(\<exists>s. terminal s \<and> status_history (snd (runAnalysis env cfg)) k
              \<in> {[pending], [pending, in_progress], [pending, in_progress, s]})
    \<and> (\<forall>results. fst (runAnalysis env cfg) = Inr results \<longrightarrow>
          (\<exists>s. terminal s \<and> status_history (snd (runAnalysis env cfg)) k
                  = [pending, in_progress, s]))"
proof (cases "initializeClients cfg")
  case (Inl e)
  with assms(2) show ?thesis by (simp add: runAnalysis_aborted)
next
  case (Inr cl)
  let ?st = "snd (runAnalysis env cfg)"
  let ?N = "length (providers cfg)"
  from runAnalysis_base[OF Inr, of env] have len: "length (heap ?st) = length (prompts cfg) * ?N"
    by (simp add: base_inv_def)
  with assms(2) have k: "k < length (prompts cfg) * ?N" by simp
  show ?thesis
  proof (cases "\<forall>p\<in>set (providers cfg). guard_ok cfg cl p")
    case True
    note ix = index_split[OF k]
    from ix(2) True have "guard_ok cfg cl (providers cfg ! (k mod ?N))" by simp
    then obtain outcome
      where "dispatch env cfg cl (k div ?N) (prompts cfg ! (k div ?N)) (providers cfg ! (k mod ?N))
               = Inr outcome"
      using dispatch_Inr_iff by blast
    from settled_mark_terminal[OF this] runAnalysis_ok(4)[OF assms(1) Inr True k, of env]
    show ?thesis by auto
  next
    case False
    from k have "prompts cfg \<noteq> []" by auto
    then obtain pt rest where pts: "prompts cfg = pt # rest" by (cases "prompts cfg") auto
    from aborted_at_first_prompt[OF Inr False pts, of env] obtain e
      where run: "runAnalysis env cfg =
           (Inl e, foldl (start_mapper env cfg cl 0 pt) (initial_state cfg) (providers cfg))"
      by blast
    from k have "k < length (initial_tasks cfg)" by (simp add: initial_length)
    from aborted_history[OF assms(1) this, of env cl pt] run
    have "status_history ?st k \<in> {[pending], [pending, in_progress]}" by simp
    moreover have "terminal completed" by (simp add: terminal_def)
    ultimately show ?thesis using run by auto
  qed
qed

lemma status_path_of_a_run_example:
  "\<exists>s. terminal s \<and> status_history (snd (runAnalysis example_env example_config)) 1
          = [pending, in_progress, s]"
proof -
  have k: "1 < length (heap (snd (runAnalysis example_env example_config)))"
    by code_simp
  have ret: "fst (runAnalysis example_env example_config)
               = Inr (projr (fst (runAnalysis example_env example_config)))"
    using example_run by (metis fst_conv)
  from status_path_of_a_run[OF example_distinct k] ret show ?thesis
    by blast
qed

text \<open>C9: with the OpenAI key missing, the guard of the OpenAI mapper throws after the task has been
  set \<open>in_progress\<close> and outside the \<open>try\<close> block, so nothing records a terminal status for it:
  when the run is rejected both tasks have gone from \<open>pending\<close> to \<open>in_progress\<close> and no further,
  and the OpenAI task is never written again.\<close>

theorem guard_abort_leaves_tasks_unfinished:
  "fst (runAnalysis example_env misconfigured_config)
     = Inl (Error ''OpenAI client not initialized properly.'')
   \<and> length (heap (snd (runAnalysis example_env misconfigured_config))) = 2
   \<and> status_history (snd (runAnalysis example_env misconfigured_config)) 0
       = [pending, in_progress]
   \<and> status_history (snd (runAnalysis example_env misconfigured_config)) 1
       = [pending, in_progress]
   \<and> status (heap (snd (runAnalysis example_env misconfigured_config)) ! 1) = in_progress"
  by code_simp

subsection \<open>C10: Snapshots are shallow\<close>

text \<open>C10: any two arrays passed to \<open>onProgress\<close> during a run hold the same task references, the
  ones of the orchestrator's own list: read in the store of a later emission, or in the final
  store, the array of an earlier emission shows the tasks as they are then.\<close>

theorem snapshots_share_task_objects:
  assumes "a < length (emitted (snd (runAnalysis env cfg)))"
    and "b < length (emitted (snd (runAnalysis env cfg)))"
  shows "fst (emitted (snd (runAnalysis env cfg)) ! a) = fst (emitted (snd (runAnalysis env cfg)) ! b)
    \<and> deref (snd (emitted (snd (runAnalysis env cfg)) ! b))
         (fst (emitted (snd (runAnalysis env cfg)) ! a))
        = observed (emitted (snd (runAnalysis env cfg)) ! b)
    \<and> deref (heap (snd (runAnalysis env cfg))) (fst (emitted (snd (runAnalysis env cfg)) ! a))
        = deref (heap (snd (runAnalysis env cfg))) (tasks (snd (runAnalysis env cfg)))"
proof (cases "initializeClients cfg")
  case (Inl e)
  with assms show ?thesis by (simp add: runAnalysis_aborted)
next
  case (Inr cl)
  let ?st = "snd (runAnalysis env cfg)"
  from runAnalysis_base[OF Inr, of env] have inv: "tracker_inv ?st"
    by (simp add: base_inv_def)
  from inv assms have "fst (emitted ?st ! a) = tasks ?st" "fst (emitted ?st ! b) = tasks ?st"
    by (simp_all add: tracker_inv_def)
  then show ?thesis by (simp add: observed_def)
qed

theorem snapshots_share_task_objects_witness:
  "fst (emitted (snd (runAnalysis example_env example_config)) ! 0)
     = fst (emitted (snd (runAnalysis example_env example_config)) ! 4)
   \<and> deref (snd (emitted (snd (runAnalysis example_env example_config)) ! 4))
        (fst (emitted (snd (runAnalysis example_env example_config)) ! 0))
       = observed (emitted (snd (runAnalysis example_env example_config)) ! 4)
   \<and> map status (observed (emitted (snd (runAnalysis example_env example_config)) ! 0))
       = [pending, pending]
   \<and> map status (deref (snd (emitted (snd (runAnalysis example_env example_config)) ! 4))
        (fst (emitted (snd (runAnalysis example_env example_config)) ! 0)))
       = [completed, completed]"
proof -
  let ?S = "snd (runAnalysis example_env example_config)"
  have n: "length (emitted ?S) = 5" by code_simp
  have a: "map status (observed (emitted ?S ! 0)) = [pending, pending]" by code_simp
  have b: "map status (deref (snd (emitted ?S ! 4)) (fst (emitted ?S ! 0))) = [completed, completed]"
    by code_simp
  have lt: "0 < length (emitted ?S)" "4 < length (emitted ?S)" using n by simp_all
  from snapshots_share_task_objects[OF lt] a b show ?thesis by blast
qed

end
